theory Spec2Isabelle
  imports Main
begin

section \<open>The mDNS service browser of bonjour-service (src/lib/browser.ts)\<close>

text \<open>
  The browser keeps a list of the services it knows, listens to the response packets of a
  multicast DNS record source and reports services coming up, going down and changing.
  The class is embedded with explicit state passing: every method takes the browser state
  and returns the new one. What the class does to the outside is logged in the state: the
  events it emits (field \<open>events\<close>) and the queries it sends to the record source
  (field \<open>queries\<close> of \<open>mdns\<close>). \<open>Date.now()\<close> is an argument of the method that reads it.
\<close>

subsection \<open>JavaScript strings, arrays and objects\<close>

text \<open>\<open>str.split('.')\<close>: never empty, \<open>''.split('.')\<close> is \<open>['']\<close>.\<close>

fun split_dot :: "string \<Rightarrow> string list" where
  "split_dot [] = [[]]"
| "split_dot (c # cs) =
     (if c = CHR ''.'' then [] # split_dot cs
      else (case split_dot cs of [] \<Rightarrow> [[c]] | p # ps \<Rightarrow> (c # p) # ps))"

text \<open>\<open>parts.join(sep)\<close>.\<close>

fun join :: "string \<Rightarrow> string list \<Rightarrow> string" where
  "join sep [] = []"
| "join sep [x] = x"
| "join sep (x # y # zs) = x @ sep @ join sep (y # zs)"

text \<open>\<open>parts.slice(1, -1)\<close>: without the first and the last element.\<close>

definition slice_1_m1 :: "'a list \<Rightarrow> 'a list" where
  "slice_1_m1 parts = butlast (tl parts)"

text \<open>\<open>hay.includes(needle)\<close> on strings.\<close>

fun includes_str :: "string \<Rightarrow> string \<Rightarrow> bool" where
  "includes_str [] needle = (needle = [])"
| "includes_str (c # cs) needle =
     (if take (length needle) (c # cs) = needle then True else includes_str cs needle)"

text \<open>
  A plain object used as a set of keys (\<open>nameMap\<close>, \<open>serviceMap\<close>) is the list of its own
  keys in the order they were first stored. \<open>obj[k] = true\<close> adds the key once; the key
  \<open>__proto__\<close> goes to the setter of \<open>Object.prototype\<close>, which ignores a value that is
  not an object, so no own key appears.
\<close>

definition obj_set :: "string list \<Rightarrow> string \<Rightarrow> string list" where
  "obj_set obj k = (if k = ''__proto__'' \<or> k \<in> set obj then obj else obj @ [k])"

definition obj_delete :: "string list \<Rightarrow> string \<Rightarrow> string list" where
  "obj_delete obj k = filter (\<lambda>k'. k' \<noteq> k) obj"

text \<open>The property names every plain object inherits from \<open>Object.prototype\<close>.\<close>

definition object_prototype_keys :: "string list" where
  "object_prototype_keys =
     [''constructor'', ''__defineGetter__'', ''__defineSetter__'', ''hasOwnProperty'',
      ''__lookupGetter__'', ''__lookupSetter__'', ''isPrototypeOf'', ''propertyIsEnumerable'',
      ''toString'', ''valueOf'', ''__proto__'', ''toLocaleString'']"

text \<open>\<open>k in obj\<close>: own or inherited.\<close>

definition obj_in :: "string \<Rightarrow> string list \<Rightarrow> bool" where
  "obj_in k obj = (k \<in> set obj \<or> k \<in> set object_prototype_keys)"

text \<open>
  \<open>Object.keys(obj)\<close>: the keys that are array indices (canonical decimal numerals below
  \<open>2^32 - 1\<close>) come first, in ascending numeric order, then the other keys in the order
  they were stored.
\<close>

definition is_digit :: "char \<Rightarrow> bool" where
  "is_digit c = (c \<in> set ''0123456789'')"

definition digit_val :: "char \<Rightarrow> nat" where
  "digit_val c = (of_char c :: nat) - 48"

definition dec_val :: "string \<Rightarrow> nat" where
  "dec_val s = foldl (\<lambda>a c. 10 * a + digit_val c) 0 s"

definition is_array_index :: "string \<Rightarrow> bool" where
  "is_array_index s =
     (s \<noteq> [] \<and> list_all is_digit s \<and> (hd s \<noteq> CHR ''0'' \<or> s = ''0'')
      \<and> dec_val s < 4294967295)"

definition Object_keys :: "string list \<Rightarrow> string list" where
  "Object_keys obj =
     sort_key dec_val (filter is_array_index obj) @ filter (\<lambda>k. \<not> is_array_index k) obj"

subsection \<open>Resource records and packets\<close>

text \<open>
  A resource record as the record source delivers it (\<open>ServiceRecord\<close>): its \<open>type\<close>
  decides the shape of its \<open>data\<close>, so the two are one datatype. A PTR record carries a
  name, an SRV record a target and a port, a TXT record the raw strings, an A or AAAA
  record an address. \<open>OTHER\<close> is any other record type.
\<close>

datatype rdata =
    PTR string
  | SRV string nat
  | TXT "string list"
  | A_addr string
  | AAAA string
  | OTHER

record rr =
  rname :: string
  rttl :: nat
  rdata :: rdata

record packet =
  answers :: "rr list"
  additionals :: "rr list"

record rinfo =
  address :: string
  rport :: nat

type_synonym KeyValue = "(string \<times> string) list"

subsection \<open>Services and events\<close>

text \<open>
  The object \<open>buildServicesFor\<close> builds. Keys that the SRV and TXT records set are
  absent (\<open>None\<close>) until such a record is seen.
\<close>

record service =
  addresses :: "string list"
  subtypes :: "string option list"
  ttl :: nat
  lastSeen :: int
  name :: "string option"
  fqdn :: "string option"
  host :: "string option"
  referer :: "rinfo option"
  port :: "nat option"
  type :: "string option"
  protocol :: "string option"
  rawTxt :: "string list option"
  "txt" :: "KeyValue option"

datatype event =
    Up service
  | Down service
  | SrvUpdate service service
  | TxtUpdate service service

subsection \<open>The modules the browser imports\<close>

text \<open>
  The result of \<open>toType\<close> of \<open>service-types\<close>.
\<close>

record ServiceType =
  st_name :: "string option"
  st_protocol :: "string option"
  st_subtype :: "string option"

text \<open>
  browser.ts imports \<open>dnsEqual\<close>, \<open>filterService\<close>, \<open>filterTxt\<close>, \<open>equalTxt\<close>, the class
  \<open>DnsTxt\<close> and \<open>toString\<close>/\<open>toType\<close> of \<open>service-types\<close> from modules that are not part of
  the sources at hand. They are parameters of the model, collected in one record; every
  theorem holds for all of them unless it states what it needs of them.
  \<open>decodeAll\<close> takes the argument the \<open>DnsTxt\<close> object was constructed with first.
\<close>

record env =
  dnsEqual :: "string \<Rightarrow> string \<Rightarrow> bool"
  filterService :: "service \<Rightarrow> KeyValue option \<Rightarrow> bool"
  filterTxt :: "KeyValue \<Rightarrow> KeyValue"
  equalTxt :: "KeyValue option \<Rightarrow> KeyValue \<Rightarrow> bool"
  decodeAll :: "KeyValue option \<Rightarrow> string list \<Rightarrow> KeyValue"
  ServiceToString :: "string \<Rightarrow> string \<Rightarrow> string"
  ServiceToType :: "string \<Rightarrow> ServiceType"

text \<open>
  \<open>dnsEqual\<close> at a key of a service object, which may be absent. No call of the browser
  passes an absent name for a service it has stored (\<open>stored_named\<close> below); the model
  lets an absent name be equal to nothing.
\<close>

definition dnsEqualU :: "env \<Rightarrow> string option \<Rightarrow> string option \<Rightarrow> bool" where
  "dnsEqualU E a b =
     (case a of None \<Rightarrow> False
      | Some x \<Rightarrow> (case b of None \<Rightarrow> False | Some y \<Rightarrow> dnsEqual E x y))"

subsection \<open>The browser\<close>

definition TLD :: string where
  "TLD = ''.local''"

definition WILDCARD :: string where
  "WILDCARD = ''_services._dns-sd._udp'' @ TLD"

record BrowserConfig =
  cfg_type :: "string option"
  cfg_name :: "string option"
  cfg_protocol :: "string option"
  cfg_subtypes :: "string list option"
  cfg_txt :: "KeyValue option"

text \<open>The second argument of the constructor: \<open>null\<close>, a configuration, or the \<open>up\<close> callback.\<close>

datatype opts = OptsNull | OptsConfig BrowserConfig | OptsOnUp

text \<open>
  The record source: whether the browser's handler is registered for \<open>response\<close>, and the
  queries sent so far (name and record type).
\<close>

record mdns =
  handler :: bool
  queries :: "(string option \<times> string) list"

text \<open>
  The fields of the class. \<open>onresponse\<close> says whether the field holds a handler;
  \<open>nameMap\<close> is the variable of that name which the handler made by the last \<open>start()\<close>
  closes over; \<open>dnstxt\<close> is the argument the \<open>DnsTxt\<close> object in field \<open>txt\<close> was made
  with; \<open>bname\<close> is the field \<open>name\<close>; \<open>services\<close> is the field \<open>_services\<close>.
  An emitted event holds the values its arguments have when it is emitted.
\<close>

record browser =
  mdns :: mdns
  onresponse :: bool
  serviceMap :: "string list"
  dnstxt :: "KeyValue option"
  bname :: "string option"
  txtQuery :: "KeyValue option"
  wildcard :: bool
  services :: "service list"
  nameMap :: "string list"
  events :: "event list"

definition emit :: "browser \<Rightarrow> event \<Rightarrow> browser" where
  "emit b e = b\<lparr>events := events b @ [e]\<rparr>"

definition mdns_query :: "browser \<Rightarrow> string option \<Rightarrow> string \<Rightarrow> browser" where
  "mdns_query b n t = b\<lparr>mdns := (mdns b)\<lparr>queries := queries (mdns b) @ [(n, t)]\<rparr>\<rparr>"

text \<open>The property key a value turns into: \<open>undefined\<close> becomes the string of that name.\<close>

definition key_of :: "string option \<Rightarrow> string" where
  "key_of k = (case k of None \<Rightarrow> ''undefined'' | Some s \<Rightarrow> s)"

subsubsection \<open>update, start, stop and the constructor\<close>

definition update :: "browser \<Rightarrow> browser" where
  "update b = mdns_query b (bname b) ''PTR''"

text \<open>
  \<open>start()\<close> makes a new \<open>nameMap\<close>, stores the handler that closes over it, registers
  the handler with the record source and queries.
\<close>

definition start :: "browser \<Rightarrow> browser" where
  "start b =
     (if onresponse b then b
      else (case bname b of
          None \<Rightarrow> b
        | Some n \<Rightarrow>
            update (b\<lparr>nameMap := (if \<not> wildcard b then obj_set [] n else []),
                      onresponse := True,
                      mdns := (mdns b)\<lparr>handler := True\<rparr>\<rparr>)))"

definition stop :: "browser \<Rightarrow> browser" where
  "stop b =
     (if \<not> onresponse b then b
      else b\<lparr>mdns := (mdns b)\<lparr>handler := False\<rparr>, onresponse := False\<rparr>)"

text \<open>
  The constructor, for an \<open>opts\<close> that is not a function: \<open>None\<close> is \<open>null\<close>.
  \<open>x || 'tcp'\<close> and \<open>if (opts.name)\<close> take the empty string as absent.
  The \<open>up\<close> listener the constructor may register is outside the model.
\<close>

definition new_Browser :: "env \<Rightarrow> mdns \<Rightarrow> BrowserConfig option \<Rightarrow> browser" where
  "new_Browser E m opts =
     (let this = \<lparr>mdns = m, onresponse = False, serviceMap = [],
                  dnstxt = (case opts of None \<Rightarrow> None | Some c \<Rightarrow> cfg_txt c),
                  bname = None, txtQuery = None, wildcard = False, services = [],
                  nameMap = [], events = []\<rparr>;
          this = (case opts of
              None \<Rightarrow> this\<lparr>bname := Some WILDCARD, wildcard := True\<rparr>
            | Some c \<Rightarrow>
               (case cfg_type c of
                  None \<Rightarrow> this\<lparr>bname := Some WILDCARD, wildcard := True\<rparr>
                | Some t \<Rightarrow>
                    (let n = ServiceToString E t
                               (case cfg_protocol c of None \<Rightarrow> ''tcp''
                                | Some p \<Rightarrow> if p = [] then ''tcp'' else p) @ TLD;
                         n = (case cfg_name c of None \<Rightarrow> n
                              | Some i \<Rightarrow> if i = [] then n else i @ ''.'' @ n)
                     in this\<lparr>bname := Some n, wildcard := False\<rparr>)));
          this = (case opts of
              None \<Rightarrow> this
            | Some c \<Rightarrow>
               (case cfg_txt c of None \<Rightarrow> this
                | Some t \<Rightarrow> this\<lparr>txtQuery := Some (filterTxt E t)\<rparr>))
      in start this)"

text \<open>Called with a function for \<open>opts\<close>, the constructor returns \<open>new Browser(mdns, null, opts)\<close>.\<close>

definition Browser :: "env \<Rightarrow> mdns \<Rightarrow> opts \<Rightarrow> browser" where
  "Browser E m opts =
     (case opts of
        OptsOnUp \<Rightarrow> new_Browser E m None
      | OptsNull \<Rightarrow> new_Browser E m None
      | OptsConfig c \<Rightarrow> new_Browser E m (Some c))"

subsubsection \<open>The known services\<close>

definition addService :: "env \<Rightarrow> browser \<Rightarrow> service \<Rightarrow> browser" where
  "addService E b service =
     (if filterService E service (txtQuery b) = False then b
      else emit (b\<lparr>services := services b @ [service],
                   serviceMap := obj_set (serviceMap b) (key_of (fqdn service))\<rparr>)
             (Up service))"

definition replaceService :: "env \<Rightarrow> browser \<Rightarrow> service \<Rightarrow> browser" where
  "replaceService E b service =
     b\<lparr>services :=
         map (\<lambda>s. if \<not> dnsEqualU E (fqdn s) (fqdn service) then s else service) (services b)\<rparr>"

text \<open>
  \<open>arr.some(f)\<close> where \<open>f\<close> stores the element and its index at the first hit and stops.
\<close>

fun some_capture :: "('a \<Rightarrow> bool) \<Rightarrow> 'a list \<Rightarrow> nat \<Rightarrow> ('a \<times> nat) option" where
  "some_capture P [] i = None"
| "some_capture P (s # ss) i = (if P s then Some (s, i) else some_capture P ss (Suc i))"

text \<open>\<open>arr.splice(index, 1)\<close> for an index in range.\<close>

definition splice1 :: "nat \<Rightarrow> 'a list \<Rightarrow> 'a list" where
  "splice1 index arr = take index arr @ drop (Suc index) arr"

definition removeService :: "env \<Rightarrow> browser \<Rightarrow> string option \<Rightarrow> browser" where
  "removeService E b fq =
     (case some_capture (\<lambda>s. dnsEqualU E (fqdn s) fq) (services b) 0 of
        None \<Rightarrow> b
      | Some (service, index) \<Rightarrow>
          emit (b\<lparr>services := splice1 index (services b),
                  serviceMap := obj_delete (serviceMap b) (key_of fq)\<rparr>)
            (Down service))"

text \<open>\<open>a.addresses?.toString()\<close>: the elements joined by commas.\<close>

definition addresses_toString :: "service \<Rightarrow> string" where
  "addresses_toString s = join '','' (addresses s)"

definition updateServiceSrv :: "env \<Rightarrow> browser \<Rightarrow> service \<Rightarrow> service \<Rightarrow> browser" where
  "updateServiceSrv E b existingService newService =
     (if name existingService \<noteq> name newService
         \<or> host existingService \<noteq> host newService
         \<or> port existingService \<noteq> port newService
         \<or> type existingService \<noteq> type newService
         \<or> protocol existingService \<noteq> protocol newService
         \<or> addresses_toString existingService \<noteq> addresses_toString newService
      then emit (replaceService E b newService) (SrvUpdate newService existingService)
      else b)"

definition updateServiceTxt :: "env \<Rightarrow> browser \<Rightarrow> service \<Rightarrow> service \<Rightarrow> browser" where
  "updateServiceTxt E b existingService service =
     (if equalTxt E (txt service) (case txt existingService of None \<Rightarrow> [] | Some t \<Rightarrow> t)
      then b
      else if \<not> filterService E service (txtQuery b)
      then removeService E b (fqdn service)
      else emit (replaceService E b service) (TxtUpdate service existingService))"

subsubsection \<open>expire\<close>

text \<open>The callback of the filter in \<open>expire()\<close>, with the services kept so far.\<close>

definition expire_step :: "int \<Rightarrow> service list \<times> browser \<Rightarrow> service \<Rightarrow> service list \<times> browser" where
  "expire_step currentTime acc service =
     (case acc of (kept, b) \<Rightarrow>
        if ttl service = 0 then (kept @ [service], b)
        else (let expireTime = lastSeen service + int (ttl service) * 1000
              in if expireTime < currentTime then (kept, emit b (Down service))
                 else (kept @ [service], b)))"

definition expire :: "browser \<Rightarrow> int \<Rightarrow> browser" where
  "expire b currentTime =
     (case foldl (expire_step currentTime) ([], b) (services b) of
        (kept, b') \<Rightarrow> b'\<lparr>services := kept\<rparr>)"

subsubsection \<open>Goodbyes and candidates\<close>

definition rtype :: "rr \<Rightarrow> string" where
  "rtype r =
     (case rdata r of PTR _ \<Rightarrow> ''PTR'' | SRV _ _ \<Rightarrow> ''SRV'' | TXT _ \<Rightarrow> ''TXT''
      | A_addr _ \<Rightarrow> ''A'' | AAAA _ \<Rightarrow> ''AAAA'' | OTHER \<Rightarrow> ''OTHER'')"

text \<open>The \<open>data\<close> of a PTR record, a name.\<close>

definition ptr_data :: "rr \<Rightarrow> string option" where
  "ptr_data r = (case rdata r of PTR d \<Rightarrow> Some d | _ \<Rightarrow> None)"

text \<open>The \<open>data\<close> of an A or AAAA record, an address.\<close>

definition addr_data :: "rr \<Rightarrow> string option" where
  "addr_data r = (case rdata r of A_addr a \<Rightarrow> Some a | AAAA a \<Rightarrow> Some a | _ \<Rightarrow> None)"

definition goodbyes :: "env \<Rightarrow> string \<Rightarrow> packet \<Rightarrow> string list" where
  "goodbyes E n pkt =
     List.map_filter ptr_data
       (filter (\<lambda>r. rtype r = ''PTR'' \<and> rttl r = 0 \<and> dnsEqual E (rname r) n)
          (answers pkt @ additionals pkt))"

text \<open>The records \<open>buildServicesFor\<close> looks at: goodbye messages are ignored.\<close>

definition live_records :: "packet \<Rightarrow> rr list" where
  "live_records pkt = filter (\<lambda>r. rttl r > 0) (answers pkt @ additionals pkt)"

text \<open>The loop over the subtype PTR records of a candidate.\<close>

definition subtype_step :: "env \<Rightarrow> service \<Rightarrow> rr \<Rightarrow> service" where
  "subtype_step E service r =
     (let types = ServiceToType E (rname r)
      in service\<lparr>subtypes := subtypes service @ [st_subtype types]\<rparr>)"

text \<open>The loop over the SRV and TXT records of a candidate: a later record overwrites.\<close>

definition srv_txt_step :: "env \<Rightarrow> KeyValue option \<Rightarrow> rinfo \<Rightarrow> service \<Rightarrow> rr \<Rightarrow> service" where
  "srv_txt_step E dt ref service r =
     (case rdata r of
        SRV target p \<Rightarrow>
          (let parts = split_dot (rname r);
               n = (case parts of [] \<Rightarrow> None | x # _ \<Rightarrow> Some x);
               types = ServiceToType E (join ''.'' (slice_1_m1 parts))
           in service\<lparr>name := n, fqdn := Some (rname r), host := Some target,
                       referer := Some ref, port := Some p,
                       type := st_name types, protocol := st_protocol types\<rparr>)
      | TXT d \<Rightarrow> service\<lparr>rawTxt := Some d, txt := Some (decodeAll E dt d)\<rparr>
      | _ \<Rightarrow> service)"

definition address_step :: "service \<Rightarrow> rr \<Rightarrow> service" where
  "address_step service r =
     (case addr_data r of None \<Rightarrow> service
      | Some a \<Rightarrow> service\<lparr>addresses := addresses service @ [a]\<rparr>)"

text \<open>\<open>!service.name\<close>: the name is absent or empty.\<close>

definition no_name :: "service \<Rightarrow> bool" where
  "no_name service = (case name service of None \<Rightarrow> True | Some n \<Rightarrow> n = [])"

text \<open>
  The function mapped over the PTR records of the tracked name; \<open>None\<close> is the
  \<open>undefined\<close> it returns for a candidate without a name.
\<close>

definition build_service ::
  "env \<Rightarrow> KeyValue option \<Rightarrow> rr list \<Rightarrow> rinfo \<Rightarrow> int \<Rightarrow> rr \<Rightarrow> service option" where
  "build_service E dt records ref receiveTime ptr =
     (case rdata ptr of
        PTR pd \<Rightarrow>
          (let service = \<lparr>addresses = [], subtypes = [], ttl = rttl ptr,
                          lastSeen = receiveTime, name = None, fqdn = None, host = None,
                          referer = None, port = None, type = None, protocol = None,
                          rawTxt = None, txt = None\<rparr>;
               service = foldl (subtype_step E) service
                  (filter (\<lambda>r. case rdata r of
                       PTR d \<Rightarrow> dnsEqual E d pd \<and> includes_str (rname r) ''._sub''
                     | _ \<Rightarrow> False) records);
               service = foldl (srv_txt_step E dt ref) service
                  (filter (\<lambda>r. (rtype r = ''SRV'' \<or> rtype r = ''TXT'')
                                \<and> dnsEqual E (rname r) pd) records)
           in if no_name service then None
              else Some (foldl address_step service
                  (filter (\<lambda>r. (rtype r = ''A'' \<or> rtype r = ''AAAA'')
                                \<and> dnsEqualU E (Some (rname r)) (host service)) records)))
      | _ \<Rightarrow> None)"

definition buildServicesFor ::
  "env \<Rightarrow> KeyValue option \<Rightarrow> string \<Rightarrow> packet \<Rightarrow> rinfo \<Rightarrow> int \<Rightarrow> service list" where
  "buildServicesFor E dt n pkt ref receiveTime =
     (let records = live_records pkt
      in List.map_filter (build_service E dt records ref receiveTime)
           (filter (\<lambda>r. rtype r = ''PTR'' \<and> dnsEqual E (rname r) n) records))"

subsubsection \<open>The response handler\<close>

text \<open>The callback over the answers of a packet in a wildcard search.\<close>

definition onresponse_answer :: "browser \<Rightarrow> rr \<Rightarrow> browser" where
  "onresponse_answer b answer =
     (case rdata answer of
        PTR d \<Rightarrow>
          if Some (rname answer) \<noteq> bname b \<or> obj_in (rname answer) (nameMap b) then b
          else mdns_query (b\<lparr>nameMap := obj_set (nameMap b) d\<rparr>) (Some d) ''PTR''
      | _ \<Rightarrow> b)"

text \<open>
  \<open>existingService.lastSeen = service.lastSeen\<close> writes to the object \<open>find\<close> returned,
  the first stored service with that name.
\<close>

fun touch_first :: "(service \<Rightarrow> bool) \<Rightarrow> int \<Rightarrow> service list \<Rightarrow> service list" where
  "touch_first P t [] = []"
| "touch_first P t (s # ss) = (if P s then s\<lparr>lastSeen := t\<rparr> # ss else s # touch_first P t ss)"

text \<open>The callback over the candidates.\<close>

definition onresponse_match :: "env \<Rightarrow> browser \<Rightarrow> service \<Rightarrow> browser" where
  "onresponse_match E b service =
     (case find (\<lambda>s. dnsEqualU E (fqdn s) (fqdn service)) (services b) of
        Some found \<Rightarrow>
          (let existingService = found\<lparr>lastSeen := lastSeen service\<rparr>;
               b = b\<lparr>services := touch_first (\<lambda>s. dnsEqualU E (fqdn s) (fqdn service))
                                    (lastSeen service) (services b)\<rparr>;
               b = updateServiceSrv E b existingService service
           in updateServiceTxt E b existingService service)
      | None \<Rightarrow> addService E b service)"

text \<open>
  The first statement of the callback over the tracked names:
  \<open>self.goodbyes(name, packet).forEach(self.removeService.bind(self))\<close>.
\<close>

definition unregister_goodbyes :: "env \<Rightarrow> browser \<Rightarrow> string \<Rightarrow> packet \<Rightarrow> browser" where
  "unregister_goodbyes E b n pkt = foldl (removeService E) b (map Some (goodbyes E n pkt))"

text \<open>The callback over the tracked names.\<close>

definition onresponse_name :: "env \<Rightarrow> packet \<Rightarrow> rinfo \<Rightarrow> int \<Rightarrow> browser \<Rightarrow> string \<Rightarrow> browser" where
  "onresponse_name E pkt ref receiveTime b n =
     (let b = unregister_goodbyes E b n pkt;
          matches = buildServicesFor E (dnstxt b) n pkt ref receiveTime
      in if matches = [] then b else foldl (onresponse_match E) b matches)"

definition onresponse_handler :: "env \<Rightarrow> browser \<Rightarrow> packet \<Rightarrow> rinfo \<Rightarrow> int \<Rightarrow> browser" where
  "onresponse_handler E b pkt ref receiveTime =
     (let b = (if wildcard b then foldl onresponse_answer b (answers pkt) else b)
      in foldl (onresponse_name E pkt ref receiveTime) b (Object_keys (nameMap b)))"

subsubsection \<open>Runs\<close>

text \<open>
  What can happen to a browser: a call of a public method, or the record source
  delivering a packet, which reaches the handler only while it is registered.
  \<open>Expire\<close> and \<open>Response\<close> carry the value \<open>Date.now()\<close> returns.
\<close>

datatype action =
    Start
  | Stop
  | Update
  | Expire int
  | Response packet rinfo int

definition step :: "env \<Rightarrow> browser \<Rightarrow> action \<Rightarrow> browser" where
  "step E b a =
     (case a of
        Start \<Rightarrow> start b
      | Stop \<Rightarrow> stop b
      | Update \<Rightarrow> update b
      | Expire t \<Rightarrow> expire b t
      | Response pkt ref t \<Rightarrow>
          if handler (mdns b) then onresponse_handler E b pkt ref t else b)"

definition run :: "env \<Rightarrow> browser \<Rightarrow> action list \<Rightarrow> browser" where
  "run E b as = foldl (step E) b as"

subsection \<open>The imported modules, as the specification describes them\<close>

text \<open>
  A concrete choice of the imported functions, used to run the model on examples.
\<close>

text \<open>
  Modelled from the spec: the module \<open>utils/dns-equal\<close> is missing. The lower-case
  letter of a capital letter from A to Z, any other character unchanged.
\<close>

definition lower_char :: "char \<Rightarrow> char" where
  "lower_char c =
     (case map_of (zip ''ABCDEFGHIJKLMNOPQRSTUVWXYZ'' ''abcdefghijklmnopqrstuvwxyz'') c of
        None \<Rightarrow> c | Some l \<Rightarrow> l)"

text \<open>
  Modelled from the spec: the module \<open>utils/dns-equal\<close> is missing. Names are compared
  as DNS names ("DNS-equal"): equal up to the case of the letters A to Z.
\<close>

definition spec_dnsEqual :: "string \<Rightarrow> string \<Rightarrow> bool" where
  "spec_dnsEqual a b = (map lower_char a = map lower_char b)"

text \<open>
  Modelled from the spec: the module \<open>utils/filter-service\<close> is missing. The attribute
  filter takes the decoded TXT mapping of a service and an optional query pattern, a
  mapping of required key to value; absence of a query pattern admits everything. The
  reserved patterns for "key absent" and "any value" are not modelled.
\<close>

definition spec_filterService :: "service \<Rightarrow> KeyValue option \<Rightarrow> bool" where
  "spec_filterService service query =
     (case query of
        None \<Rightarrow> True
      | Some q \<Rightarrow>
          list_all (\<lambda>(k, v). map_of (case txt service of None \<Rightarrow> [] | Some t \<Rightarrow> t) k = Some v) q)"

text \<open>
  Modelled from the spec: the module \<open>utils/filter-txt\<close> is missing. It drops the
  binary-valued keys of a query pattern; the values of the model are all strings.
\<close>

definition spec_filterTxt :: "KeyValue \<Rightarrow> KeyValue" where
  "spec_filterTxt q = q"

text \<open>
  Modelled from the spec: the module \<open>utils/equal-txt\<close> is missing. Decoded content is
  compared under map equality, ignoring key order; an absent mapping is no mapping and
  equals none.
\<close>

definition spec_equalTxt :: "KeyValue option \<Rightarrow> KeyValue \<Rightarrow> bool" where
  "spec_equalTxt a b =
     (case a of
        None \<Rightarrow> False
      | Some a' \<Rightarrow> list_all (\<lambda>k. map_of a' k = map_of b k) (map fst a' @ map fst b))"

text \<open>
  Modelled from the spec: the class \<open>DnsTxt\<close> is missing. It decodes a raw TXT payload
  into a key-value mapping: each string \<open>key=value\<close> gives one pair.
\<close>

definition spec_decodeAll :: "KeyValue option \<Rightarrow> string list \<Rightarrow> KeyValue" where
  "spec_decodeAll opts raw =
     map (\<lambda>s. (takeWhile (\<lambda>c. c \<noteq> CHR ''='') s, drop 1 (dropWhile (\<lambda>c. c \<noteq> CHR ''='') s))) raw"

text \<open>
  Modelled from the spec: the module \<open>service-types\<close> is missing. It converts between
  a service name with a protocol and an optional subtype and the dotted DNS form:
  type \<open>http\<close> with protocol \<open>tcp\<close> is \<open>_http._tcp\<close>, a subtype comes first and is
  followed by the label \<open>_sub\<close>.
\<close>

definition spec_ServiceToString :: "string \<Rightarrow> string \<Rightarrow> string" where
  "spec_ServiceToString n p = ''_'' @ n @ ''._'' @ p"

text \<open>
  Modelled from the spec: the module \<open>service-types\<close> is missing. A label of the dotted
  form without its leading underscore.
\<close>

definition strip_underscore :: "string \<Rightarrow> string" where
  "strip_underscore l = (case l of [] \<Rightarrow> [] | c # cs \<Rightarrow> if c = CHR ''_'' then cs else l)"

text \<open>
  Modelled from the spec: the module \<open>service-types\<close> is missing. The way back from the
  dotted form: the first two labels are the service name and the protocol, after a
  subtype and the label \<open>_sub\<close> if the form has them.
\<close>

definition spec_ServiceToType :: "string \<Rightarrow> ServiceType" where
  "spec_ServiceToType s =
     (let parts = map strip_underscore (split_dot s)
      in if ''sub'' \<in> set parts
         then (case parts of
                 sub # _ # rest \<Rightarrow>
                   \<lparr>st_name = (case rest of [] \<Rightarrow> None | x # _ \<Rightarrow> Some x),
                    st_protocol = (case rest of _ # y # _ \<Rightarrow> Some y | _ \<Rightarrow> None),
                    st_subtype = Some sub\<rparr>
               | _ \<Rightarrow> \<lparr>st_name = None, st_protocol = None, st_subtype = None\<rparr>)
         else \<lparr>st_name = (case parts of [] \<Rightarrow> None | x # _ \<Rightarrow> Some x),
               st_protocol = (case parts of _ # y # _ \<Rightarrow> Some y | _ \<Rightarrow> None),
               st_subtype = None\<rparr>)"

text \<open>
  Modelled from the spec: the imported modules are missing. The functions above, as
  the parameters of the model.
\<close>

definition spec_env :: env where
  "spec_env =
     \<lparr>dnsEqual = spec_dnsEqual, filterService = spec_filterService,
      filterTxt = spec_filterTxt, equalTxt = spec_equalTxt, decodeAll = spec_decodeAll,
      ServiceToString = spec_ServiceToString, ServiceToType = spec_ServiceToType\<rparr>"

subsection \<open>Notions the properties are stated with\<close>

text \<open>The events a method emitted: those of the state after it that the state before lacks.\<close>

definition new_events :: "browser \<Rightarrow> browser \<Rightarrow> event list" where
  "new_events b b' = drop (length (events b)) (events b')"

text \<open>A list without its first element that satisfies \<open>P\<close>.\<close>

fun remove_first :: "('a \<Rightarrow> bool) \<Rightarrow> 'a list \<Rightarrow> 'a list" where
  "remove_first P [] = []"
| "remove_first P (x # xs) = (if P x then xs else x # remove_first P xs)"

text \<open>
  The specification's condition for a service to be stale at time \<open>now\<close>:
  \<open>lastSeen + ttl*1000 < now\<close>, never for a service with ttl 0.
\<close>

definition expired_at :: "int \<Rightarrow> service \<Rightarrow> bool" where
  "expired_at now s = (ttl s \<noteq> 0 \<and> lastSeen s + int (ttl s) * 1000 < now)"

text \<open>
  No two names of a list are DNS-equal, and the known services have pairwise different
  fully-qualified names in that sense.
\<close>

fun dns_distinct :: "env \<Rightarrow> string option list \<Rightarrow> bool" where
  "dns_distinct E [] = True"
| "dns_distinct E (f # fs) =
     ((\<forall>g \<in> set fs. \<not> dnsEqualU E f g \<and> \<not> dnsEqualU E g f) \<and> dns_distinct E fs)"

definition uniq_fqdn :: "env \<Rightarrow> service list \<Rightarrow> bool" where
  "uniq_fqdn E ss = dns_distinct E (map fqdn ss)"

text \<open>Every service of the list has the keys an SRV record sets.\<close>

definition stored_named :: "service list \<Rightarrow> bool" where
  "stored_named ss =
     (\<forall>s \<in> set ss. name s \<noteq> None \<and> fqdn s \<noteq> None \<and> host s \<noteq> None \<and> port s \<noteq> None)"

text \<open>The two comparisons of the update path, as conditions on the stored and the new service.\<close>

definition srv_changed :: "service \<Rightarrow> service \<Rightarrow> bool" where
  "srv_changed existingService newService =
     (name existingService \<noteq> name newService
      \<or> host existingService \<noteq> host newService
      \<or> port existingService \<noteq> port newService
      \<or> type existingService \<noteq> type newService
      \<or> protocol existingService \<noteq> protocol newService
      \<or> addresses_toString existingService \<noteq> addresses_toString newService)"

definition txt_changed :: "env \<Rightarrow> service \<Rightarrow> service \<Rightarrow> bool" where
  "txt_changed E existingService service =
     (\<not> equalTxt E (txt service) (case txt existingService of None \<Rightarrow> [] | Some t \<Rightarrow> t))"

text \<open>An event that is about a service of the given fully-qualified name.\<close>

definition about :: "env \<Rightarrow> string option \<Rightarrow> event \<Rightarrow> bool" where
  "about E f e =
     (case e of
        Up s \<Rightarrow> dnsEqualU E (fqdn s) f
      | Down s \<Rightarrow> dnsEqualU E (fqdn s) f
      | SrvUpdate s _ \<Rightarrow> dnsEqualU E (fqdn s) f
      | TxtUpdate s _ \<Rightarrow> dnsEqualU E (fqdn s) f)"

subsection \<open>Example data\<close>

definition mdns0 :: mdns where
  "mdns0 = \<lparr>handler = False, queries = []\<rparr>"

definition rinfo0 :: rinfo where
  "rinfo0 = \<lparr>address = ''192.168.1.5'', rport = 5353\<rparr>"

text \<open>A browser for \<open>_http._tcp.local\<close> without and with a TXT query.\<close>

definition http_config :: BrowserConfig where
  "http_config = \<lparr>cfg_type = Some ''http'', cfg_name = None, cfg_protocol = Some ''tcp'',
                   cfg_subtypes = None, cfg_txt = None\<rparr>"

definition http_config_v1 :: BrowserConfig where
  "http_config_v1 = http_config\<lparr>cfg_txt := Some [(''v'', ''1'')]\<rparr>"

text \<open>A packet with the meta-PTR record of the type \<open>_http._tcp.local\<close>.\<close>

definition meta_packet :: packet where
  "meta_packet =
     \<lparr>answers = [\<lparr>rname = ''_services._dns-sd._udp.local'', rttl = 4500,
                   rdata = PTR ''_http._tcp.local''\<rparr>],
      additionals = []\<rparr>"

text \<open>The records of a printer service.\<close>

definition printer_ptr :: rr where
  "printer_ptr = \<lparr>rname = ''_http._tcp.local'', rttl = 120,
                   rdata = PTR ''myprinter._http._tcp.local''\<rparr>"

definition printer_srv :: rr where
  "printer_srv = \<lparr>rname = ''myprinter._http._tcp.local'', rttl = 120,
                   rdata = SRV ''printer.local'' 631\<rparr>"

definition printer_txt :: rr where
  "printer_txt = \<lparr>rname = ''myprinter._http._tcp.local'', rttl = 120,
                   rdata = TXT [''v=1'']\<rparr>"

definition printer_a :: rr where
  "printer_a = \<lparr>rname = ''printer.local'', rttl = 120, rdata = A_addr ''192.168.1.5''\<rparr>"

definition printer_goodbye :: rr where
  "printer_goodbye = printer_ptr\<lparr>rttl := 0\<rparr>"

text \<open>The printer announces itself.\<close>

definition announce_packet :: packet where
  "announce_packet =
     \<lparr>answers = [printer_ptr], additionals = [printer_srv, printer_txt, printer_a]\<rparr>"

text \<open>The service that packet yields when it is received at time \<open>t\<close>.\<close>

definition printer :: "int \<Rightarrow> service" where
  "printer t =
     \<lparr>addresses = [''192.168.1.5''], subtypes = [], ttl = 120, lastSeen = t,
      name = Some ''myprinter'', fqdn = Some ''myprinter._http._tcp.local'',
      host = Some ''printer.local'', referer = Some rinfo0, port = Some 631,
      type = Some ''http'', protocol = Some ''tcp'',
      rawTxt = Some [''v=1''], txt = Some [(''v'', ''1'')]\<rparr>"

text \<open>Two states that differ at most in the known services and the emitted events.\<close>

definition same_config :: "browser \<Rightarrow> browser \<Rightarrow> bool" where
  "same_config b b' =
     (mdns b' = mdns b \<and> onresponse b' = onresponse b \<and> dnstxt b' = dnstxt b
      \<and> bname b' = bname b \<and> txtQuery b' = txtQuery b \<and> wildcard b' = wildcard b
      \<and> nameMap b' = nameMap b)"

text \<open>The browser for \<open>_http._tcp.local\<close> after it has received that packet at time \<open>t\<close>.\<close>

definition printer_known :: "int \<Rightarrow> browser" where
  "printer_known t =
     \<lparr>mdns = \<lparr>handler = True, queries = [(Some ''_http._tcp.local'', ''PTR'')]\<rparr>,
      onresponse = True, serviceMap = [''myprinter._http._tcp.local''], dnstxt = None,
      bname = Some ''_http._tcp.local'', txtQuery = None, wildcard = False,
      services = [printer t], nameMap = [''_http._tcp.local''],
      events = [Up (printer t)]\<rparr>"

text \<open>
  A browser that knows three services: the printer last seen at 1000, a scanner last
  seen at 5000, and a camera with ttl 0.
\<close>

definition scanner :: service where
  "scanner = (printer 5000)\<lparr>name := Some ''scanner'', fqdn := Some ''scanner._http._tcp.local''\<rparr>"

definition camera :: service where
  "camera = (printer 1000)\<lparr>name := Some ''camera'', fqdn := Some ''camera._http._tcp.local'',
                            ttl := 0\<rparr>"

definition three_known :: browser where
  "three_known = (printer_known 1000)\<lparr>services := [printer 1000, scanner, camera]\<rparr>"

text \<open>
  The service \<open>c\<close> has its name, fully-qualified name, host and port from the SRV
  record \<open>r\<close>.
\<close>

definition from_srv :: "rr \<Rightarrow> service \<Rightarrow> bool" where
  "from_srv r c =
     (case rdata r of
        SRV target p \<Rightarrow>
          fqdn c = Some (rname r) \<and> name c = Some (hd (split_dot (rname r)))
          \<and> host c = Some target \<and> port c = Some p
      | _ \<Rightarrow> False)"

text \<open>A service with the keys of an SRV record.\<close>

definition named :: "service \<Rightarrow> bool" where
  "named c = (name c \<noteq> None \<and> fqdn c \<noteq> None \<and> host c \<noteq> None \<and> port c \<noteq> None)"

text \<open>The keys of a service an SRV record sets, without type and protocol.\<close>

definition srv_keys :: "service \<Rightarrow> string option \<times> string option \<times> string option \<times> nat option" where
  "srv_keys s = (name s, fqdn s, host s, port s)"

text \<open>A packet with the PTR and TXT records of the printer and no SRV record.\<close>

definition no_srv_packet :: packet where
  "no_srv_packet = \<lparr>answers = [printer_ptr], additionals = [printer_txt, printer_a]\<rparr>"

text \<open>The printer announces itself with another TXT record, without one, and at another port.\<close>

definition printer_txt_v2 :: rr where
  "printer_txt_v2 = printer_txt\<lparr>rdata := TXT [''v=2'']\<rparr>"

definition announce_v2_packet :: packet where
  "announce_v2_packet =
     \<lparr>answers = [printer_ptr], additionals = [printer_srv, printer_txt_v2, printer_a]\<rparr>"

definition printer_v2 :: "int \<Rightarrow> service" where
  "printer_v2 t = (printer t)\<lparr>rawTxt := Some [''v=2''], txt := Some [(''v'', ''2'')]\<rparr>"

definition bare_packet :: packet where
  "bare_packet = \<lparr>answers = [printer_ptr], additionals = [printer_srv, printer_a]\<rparr>"

definition printer_bare :: "int \<Rightarrow> service" where
  "printer_bare t = (printer t)\<lparr>rawTxt := None, txt := None\<rparr>"

definition printer_srv_moved :: rr where
  "printer_srv_moved = printer_srv\<lparr>rdata := SRV ''printer.local'' 8080\<rparr>"

definition moved_v2_packet :: packet where
  "moved_v2_packet =
     \<lparr>answers = [printer_ptr], additionals = [printer_srv_moved, printer_txt_v2, printer_a]\<rparr>"

definition printer_moved_v2 :: "int \<Rightarrow> service" where
  "printer_moved_v2 t = (printer_v2 t)\<lparr>port := Some 8080\<rparr>"

text \<open>The browser with the TXT query \<open>v=1\<close> after it has received the first announcement.\<close>

definition printer_known_v1 :: "int \<Rightarrow> browser" where
  "printer_known_v1 t =
     (printer_known t)\<lparr>dnstxt := Some [(''v'', ''1'')], txtQuery := Some [(''v'', ''1'')]\<rparr>"

text \<open>The keys of a service a TXT record sets.\<close>

definition txt_keys :: "service \<Rightarrow> string list option \<times> KeyValue option" where
  "txt_keys s = (rawTxt s, txt s)"

text \<open>The second state has the events of the first and then, maybe, more.\<close>

definition extends :: "browser \<Rightarrow> browser \<Rightarrow> bool" where
  "extends b b' = (events b' = events b @ new_events b b')"

text \<open>The goodbye of the printer alone, and together with a new announcement.\<close>

definition goodbye_packet :: packet where
  "goodbye_packet = \<lparr>answers = [printer_goodbye], additionals = []\<rparr>"



text \<open>The printer at another port with its first TXT record.\<close>

definition printer_moved :: "int \<Rightarrow> service" where
  "printer_moved t = (printer t)\<lparr>port := Some 8080\<rparr>"

text \<open>
  The TXT content the update path compares a candidate with: that of the stored
  service, or the empty mapping if it has none (\<open>existingService?.txt || {}\<close>).
\<close>

definition stored_txt :: "service \<Rightarrow> KeyValue" where
  "stored_txt s = (case txt s of None \<Rightarrow> [] | Some t \<Rightarrow> t)"

text \<open>
  What the specification says of \<open>equalTxt\<close>: two decoded mappings are equal exactly
  if they are equal as maps, whatever the order of their keys.
\<close>

definition map_equality :: "env \<Rightarrow> bool" where
  "map_equality E = (\<forall>a b. equalTxt E (Some a) b = (map_of a = map_of b))"





section \<open>Properties\<close>

subsection \<open>Removing a service\<close>

lemma some_capture_None:
  "some_capture P xs i = None \<Longrightarrow> find P xs = None"
  by (induction xs arbitrary: i) (auto split: if_splits)

lemma some_capture_Some:
  "some_capture P xs i = Some (s, j) \<Longrightarrow>
     splice1 (j - i) xs = remove_first P xs \<and> find P xs = Some s \<and> i \<le> j"
proof (induction xs arbitrary: i)
  case Nil
  then show ?case by simp
next
  case (Cons x xs)
  show ?case
  proof (cases "P x")
    case True
    with Cons.prems show ?thesis by (simp add: splice1_def)
  next
    case False
    with Cons.prems have sc: "some_capture P xs (Suc i) = Some (s, j)" by simp
    from Cons.IH[OF sc] have a: "splice1 (j - Suc i) xs = remove_first P xs"
      and b: "find P xs = Some s" and c: "Suc i \<le> j" by auto
    from c have "j - i = Suc (j - Suc i)" by simp
    with a b c False show ?thesis by (simp add: splice1_def)
  qed
qed

lemma removeService_find:
  "removeService E b fq =
     (case find (\<lambda>s. dnsEqualU E (fqdn s) fq) (services b) of
        None \<Rightarrow> b
      | Some s \<Rightarrow>
          emit (b\<lparr>services := remove_first (\<lambda>s. dnsEqualU E (fqdn s) fq) (services b),
                  serviceMap := obj_delete (serviceMap b) (key_of fq)\<rparr>) (Down s))"
proof (cases "some_capture (\<lambda>s. dnsEqualU E (fqdn s) fq) (services b) 0")
  case None
  then show ?thesis by (simp add: removeService_def some_capture_None)
next
  case (Some p)
  obtain s j where p: "p = (s, j)" by (cases p)
  from some_capture_Some[OF Some[unfolded p]] Some p
  show ?thesis by (simp add: removeService_def)
qed

subsection \<open>What the handler leaves alone\<close>

lemma same_config_refl: "same_config b b"
  by (simp add: same_config_def)

lemma same_config_trans: "same_config a b \<Longrightarrow> same_config b c \<Longrightarrow> same_config a c"
  by (simp add: same_config_def)

lemma same_config_foldl:
  assumes "\<And>b x. same_config b (f b x)"
  shows "same_config b (foldl f b xs)"
proof (induction xs arbitrary: b)
  case Nil
  show ?case by (simp add: same_config_refl)
next
  case (Cons x xs)
  from assms[of b x] Cons[of "f b x"] show ?case
    by (auto intro: same_config_trans)
qed

lemma same_config_removeService: "same_config b (removeService E b fq)"
  by (simp add: removeService_find same_config_def emit_def split: option.splits)

lemma same_config_addService: "same_config b (addService E b s)"
  by (simp add: addService_def same_config_def emit_def)

lemma same_config_updateServiceSrv: "same_config b (updateServiceSrv E b ex s)"
  by (simp add: updateServiceSrv_def replaceService_def same_config_def emit_def)

lemma same_config_updateServiceTxt: "same_config b (updateServiceTxt E b ex s)"
  using same_config_removeService[of b E "fqdn s"]
  by (simp add: updateServiceTxt_def replaceService_def same_config_def emit_def)

lemma same_config_onresponse_match: "same_config b (onresponse_match E b s)"
proof (cases "find (\<lambda>x. dnsEqualU E (fqdn x) (fqdn s)) (services b)")
  case None
  then show ?thesis by (simp add: onresponse_match_def same_config_addService)
next
  case (Some found)
  let ?b1 = "b\<lparr>services := touch_first (\<lambda>x. dnsEqualU E (fqdn x) (fqdn s)) (lastSeen s) (services b)\<rparr>"
  let ?ex = "found\<lparr>lastSeen := lastSeen s\<rparr>"
  have 1: "same_config b ?b1" by (simp add: same_config_def)
  have 2: "same_config ?b1 (updateServiceSrv E ?b1 ?ex s)" by (rule same_config_updateServiceSrv)
  have 3: "same_config (updateServiceSrv E ?b1 ?ex s) (updateServiceTxt E (updateServiceSrv E ?b1 ?ex s) ?ex s)"
    by (rule same_config_updateServiceTxt)
  from same_config_trans[OF same_config_trans[OF 1 2] 3] Some
  show ?thesis by (simp add: onresponse_match_def Let_def)
qed

lemma same_config_unregister_goodbyes: "same_config b (unregister_goodbyes E b n pkt)"
  unfolding unregister_goodbyes_def
  by (rule same_config_foldl) (rule same_config_removeService)

lemma same_config_onresponse_name: "same_config b (onresponse_name E pkt ref t b n)"
proof -
  let ?b1 = "unregister_goodbyes E b n pkt"
  have 1: "same_config b ?b1" by (rule same_config_unregister_goodbyes)
  have 2: "same_config ?b1 (foldl (onresponse_match E) ?b1 ms)" for ms
    by (rule same_config_foldl) (rule same_config_onresponse_match)
  show ?thesis
    using 1 same_config_trans[OF 1 2]
    by (simp add: onresponse_name_def Let_def)
qed

lemma same_config_names:
  "same_config b (foldl (onresponse_name E pkt ref t) b ns)"
  by (rule same_config_foldl) (rule same_config_onresponse_name)

lemma same_config_onresponse_handler:
  "same_config (if wildcard b then foldl onresponse_answer b (answers pkt) else b)
     (onresponse_handler E b pkt ref t)"
  using same_config_names[of "if wildcard b then foldl onresponse_answer b (answers pkt) else b" E pkt ref t]
  by (simp add: onresponse_handler_def Let_def)

subsection \<open>The example runs\<close>

lemma run_announce:
  "run spec_env (Browser spec_env mdns0 (OptsConfig http_config))
     [Response announce_packet rinfo0 1000] = printer_known 1000"
  by code_simp

subsection \<open>Claim C10: the constructor starts the browser\<close>

text \<open>
  C10. Constructing a browser begins discovery at once: whatever the options, the new
  browser holds a response handler that is registered with the record source, the
  record source has been sent one more query, a PTR query for the name the browser
  derived from its options, and a call of \<open>start()\<close> on the new browser changes nothing.
\<close>

theorem constructor_starts_discovery:
  "onresponse (Browser E m opts)
   \<and> handler (mdns (Browser E m opts))
   \<and> bname (Browser E m opts) \<noteq> None
   \<and> queries (mdns (Browser E m opts)) = queries m @ [(bname (Browser E m opts), ''PTR'')]
   \<and> start (Browser E m opts) = Browser E m opts"
  by (auto simp: Browser_def new_Browser_def start_def update_def mdns_query_def Let_def
      split: opts.splits option.splits)

theorem constructor_starts_discovery_witness:
  "onresponse (Browser spec_env mdns0 (OptsConfig http_config))
   \<and> handler (mdns (Browser spec_env mdns0 (OptsConfig http_config)))
   \<and> queries (mdns (Browser spec_env mdns0 (OptsConfig http_config))) =
        [(Some ''_http._tcp.local'', ''PTR'')]
   \<and> start (Browser spec_env mdns0 (OptsConfig http_config)) =
        Browser spec_env mdns0 (OptsConfig http_config)"
proof -
  have n: "bname (Browser spec_env mdns0 (OptsConfig http_config)) = Some ''_http._tcp.local''"
    by code_simp
  have q: "queries mdns0 = []"
    by (simp add: mdns0_def)
  from constructor_starts_discovery[of spec_env mdns0 "OptsConfig http_config"]
  show ?thesis
    unfolding n q by simp
qed

subsection \<open>Claim C5: expire\<close>

lemma expire_fold:
  "foldl (expire_step now) (kept, b) ss =
     (kept @ filter (\<lambda>s. \<not> expired_at now s) ss,
      b\<lparr>events := events b @ map Down (filter (expired_at now) ss)\<rparr>)"
  by (induction ss arbitrary: kept b) (auto simp: expire_step_def expired_at_def emit_def Let_def)

text \<open>
  C5. \<open>expire()\<close> called at time \<open>now\<close> keeps exactly the services that are not stale
  at \<open>now\<close>, in their order and unchanged; stale is a service with a ttl other than 0
  whose \<open>lastSeen + ttl*1000\<close> is below \<open>now\<close>, so a service with ttl 0 always stays.
  It emits one \<open>down\<close> event for each service it removes, in their order, and nothing
  else, and changes nothing else of the browser.
\<close>

theorem expire_removes_exactly_the_stale:
  "services (expire b now) = filter (\<lambda>s. \<not> expired_at now s) (services b)
   \<and> new_events b (expire b now) = map Down (filter (expired_at now) (services b))
   \<and> same_config b (expire b now)
   \<and> serviceMap (expire b now) = serviceMap b"
  by (simp add: expire_def expire_fold new_events_def same_config_def)

theorem expire_removes_exactly_the_stale_witness:
  "services (expire three_known 122001) = [scanner, camera]
   \<and> new_events three_known (expire three_known 122001) = [Down (printer 1000)]"
proof -
  have k: "filter (\<lambda>s. \<not> expired_at 122001 s) (services three_known) = [scanner, camera]"
    by code_simp
  have d: "map Down (filter (expired_at 122001) (services three_known)) = [Down (printer 1000)]"
    by code_simp
  from expire_removes_exactly_the_stale[of three_known 122001]
  show ?thesis
    unfolding k d by simp
qed

subsection \<open>Claim C1: secondary queries of a wildcard search\<close>

text \<open>
  C1. A wildcard browser that receives the same meta-PTR record in two packets sends
  the secondary PTR query for its type after each of them: the guard of the handler
  looks the name of the answer up in \<open>nameMap\<close>, not its data, so a type that is
  already tracked is queried again. The claim asks for one query per type.
\<close>

theorem meta_ptr_queried_on_every_packet:
  "queries (mdns (run E (Browser E mdns0 OptsNull)
       [Response meta_packet rinfo0 t1, Response meta_packet rinfo0 t2])) =
   [(Some ''_services._dns-sd._udp.local'', ''PTR''),
    (Some ''_http._tcp.local'', ''PTR''),
    (Some ''_http._tcp.local'', ''PTR'')]"
proof -
  define b0 where "b0 = Browser E mdns0 OptsNull"
  define b1 where "b1 = onresponse_handler E b0 meta_packet rinfo0 t1"
  define b2 where "b2 = onresponse_handler E b1 meta_packet rinfo0 t2"
  have b0: "wildcard b0" "bname b0 = Some ''_services._dns-sd._udp.local''" "nameMap b0 = []"
    "mdns b0 = \<lparr>handler = True, queries = [(Some ''_services._dns-sd._udp.local'', ''PTR'')]\<rparr>"
    by (simp_all add: b0_def Browser_def new_Browser_def start_def update_def mdns_query_def
        mdns0_def WILDCARD_def TLD_def)
  have b1: "wildcard b1" "bname b1 = Some ''_services._dns-sd._udp.local''"
    "nameMap b1 = [''_http._tcp.local'']"
    "mdns b1 = \<lparr>handler = True, queries = [(Some ''_services._dns-sd._udp.local'', ''PTR''),
        (Some ''_http._tcp.local'', ''PTR'')]\<rparr>"
    using same_config_onresponse_handler[of b0 meta_packet E rinfo0 t1] b0
    by (simp_all add: b1_def same_config_def meta_packet_def onresponse_answer_def obj_in_def
        obj_set_def object_prototype_keys_def mdns_query_def)
  have b2: "mdns b2 = \<lparr>handler = True, queries = [(Some ''_services._dns-sd._udp.local'', ''PTR''),
        (Some ''_http._tcp.local'', ''PTR''), (Some ''_http._tcp.local'', ''PTR'')]\<rparr>"
    using same_config_onresponse_handler[of b1 meta_packet E rinfo0 t2] b1
    by (simp add: b2_def same_config_def meta_packet_def onresponse_answer_def obj_in_def
        obj_set_def object_prototype_keys_def mdns_query_def)
  have "run E (Browser E mdns0 OptsNull)
       [Response meta_packet rinfo0 t1, Response meta_packet rinfo0 t2] = b2"
    using b0 b1 by (simp add: run_def step_def b0_def[symmetric] b1_def[symmetric] b2_def)
  with b2 show ?thesis by simp
qed


theorem meta_ptr_queried_on_every_packet_witness:
  "queries (mdns (run spec_env (Browser spec_env mdns0 OptsNull)
       [Response meta_packet rinfo0 1000, Response meta_packet rinfo0 2000])) =
   [(Some ''_services._dns-sd._udp.local'', ''PTR''),
    (Some ''_http._tcp.local'', ''PTR''),
    (Some ''_http._tcp.local'', ''PTR'')]"
  by (rule meta_ptr_queried_on_every_packet)

subsection \<open>Candidates are built from SRV records\<close>

lemma split_dot_nonempty: "split_dot s \<noteq> []"
  by (induction s) (auto split: list.splits)

lemma from_srv_cong:
  "name c' = name c \<Longrightarrow> fqdn c' = fqdn c \<Longrightarrow> host c' = host c \<Longrightarrow> port c' = port c \<Longrightarrow>
   from_srv r c' = from_srv r c"
  by (simp add: from_srv_def split: rdata.splits)

lemma srv_txt_step_cases:
  "srv_keys (srv_txt_step E dt ref s r) = srv_keys s \<or> from_srv r (srv_txt_step E dt ref s r)"
  using split_dot_nonempty[of "rname r"]
  by (cases "rdata r") (auto simp: srv_txt_step_def srv_keys_def from_srv_def Let_def split: list.splits)

lemma from_srv_keys: "srv_keys c' = srv_keys c \<Longrightarrow> from_srv r c' = from_srv r c"
  by (rule from_srv_cong) (simp_all add: srv_keys_def)

lemma srv_txt_fold:
  "srv_keys (foldl (srv_txt_step E dt ref) s rs) = srv_keys s
   \<or> (\<exists>r \<in> set rs. from_srv r (foldl (srv_txt_step E dt ref) s rs))"
proof (induction rs rule: rev_induct)
  case Nil
  show ?case by simp
next
  case (snoc r rs)
  let ?s = "foldl (srv_txt_step E dt ref) s rs"
  from srv_txt_step_cases[of E dt ref ?s r] show ?case
  proof
    assume same: "srv_keys (srv_txt_step E dt ref ?s r) = srv_keys ?s"
    from snoc show ?thesis
    proof
      assume "srv_keys ?s = srv_keys s"
      with same show ?thesis by simp
    next
      assume "\<exists>r' \<in> set rs. from_srv r' ?s"
      then obtain r' where "r' \<in> set rs" "from_srv r' ?s" by blast
      with from_srv_keys[OF same, of r'] show ?thesis by auto
    qed
  next
    assume "from_srv r (srv_txt_step E dt ref ?s r)"
    then show ?thesis by auto
  qed
qed

lemma address_fold_keys: "srv_keys (foldl address_step s rs) = srv_keys s"
  by (induction rs arbitrary: s) (auto simp: address_step_def srv_keys_def split: option.splits)

lemma subtype_fold_keys: "srv_keys (foldl (subtype_step E) s rs) = srv_keys s"
  by (induction rs arbitrary: s) (auto simp: subtype_step_def srv_keys_def Let_def)

lemma build_service_PTR:
  "rdata ptr = PTR pd \<Longrightarrow>
   build_service E dt records ref t ptr =
     (let s2 = foldl (srv_txt_step E dt ref)
                (foldl (subtype_step E)
                   \<lparr>addresses = [], subtypes = [], ttl = rttl ptr,
                          lastSeen = t, name = None, fqdn = None, host = None,
                          referer = None, port = None, type = None, protocol = None,
                          rawTxt = None, txt = None\<rparr>
                  (filter (\<lambda>r. case rdata r of
                       PTR d \<Rightarrow> dnsEqual E d pd \<and> includes_str (rname r) ''._sub''
                     | _ \<Rightarrow> False) records))
                (filter (\<lambda>r. (rtype r = ''SRV'' \<or> rtype r = ''TXT'')
                                \<and> dnsEqual E (rname r) pd) records)
      in if no_name s2 then None
         else Some (foldl address_step s2
                  (filter (\<lambda>r. (rtype r = ''A'' \<or> rtype r = ''AAAA'')
                                \<and> dnsEqualU E (Some (rname r)) (host s2)) records)))"
  unfolding build_service_def Let_def by simp

lemma build_service_not_PTR:
  "\<forall>pd. rdata ptr \<noteq> PTR pd \<Longrightarrow> build_service E dt records ref t ptr = None"
  unfolding build_service_def by (cases "rdata ptr") simp_all

lemma build_service_Some:
  assumes "build_service E dt records ref t ptr = Some c"
  shows "\<exists>pd. rdata ptr = PTR pd
           \<and> (\<exists>r \<in> set records. dnsEqual E (rname r) pd \<and> from_srv r c)"
proof -
  have "\<exists>pd. rdata ptr = PTR pd"
  proof (rule ccontr)
    assume "\<not> (\<exists>pd. rdata ptr = PTR pd)"
    then have "\<forall>pd. rdata ptr \<noteq> PTR pd" by simp
    from build_service_not_PTR[OF this] assms show False by simp
  qed
  then obtain pd where PTR: "rdata ptr = PTR pd" ..
  define s0 :: service where "s0 = \<lparr>addresses = [], subtypes = [], ttl = rttl ptr,
                          lastSeen = t, name = None, fqdn = None, host = None,
                          referer = None, port = None, type = None, protocol = None,
                          rawTxt = None, txt = None\<rparr>"
  define s1 where "s1 = foldl (subtype_step E) s0
                  (filter (\<lambda>r. case rdata r of
                       PTR d \<Rightarrow> dnsEqual E d pd \<and> includes_str (rname r) ''._sub''
                     | _ \<Rightarrow> False) records)"
  define rs where "rs = filter (\<lambda>r. (rtype r = ''SRV'' \<or> rtype r = ''TXT'')
                                \<and> dnsEqual E (rname r) pd) records"
  define s2 where "s2 = foldl (srv_txt_step E dt ref) s1 rs"
  define as where "as = filter (\<lambda>r. (rtype r = ''A'' \<or> rtype r = ''AAAA'')
                                \<and> dnsEqualU E (Some (rname r)) (host s2)) records"
  have "build_service E dt records ref t ptr =
      (if no_name s2 then None else Some (foldl address_step s2 as))"
    unfolding build_service_PTR[OF PTR] Let_def s0_def s1_def rs_def s2_def as_def ..
  with assms have c: "\<not> no_name s2" "c = foldl address_step s2 as"
    by (simp_all split: if_splits)
  have "name s0 = None" by (simp add: s0_def)
  then have "name s1 = None"
    using subtype_fold_keys[of E s0] by (simp add: s1_def srv_keys_def)
  with c(1) have "srv_keys s2 \<noteq> srv_keys s1"
    by (auto simp: no_name_def srv_keys_def)
  with srv_txt_fold[of E dt ref s1 rs] obtain r where r: "r \<in> set rs" "from_srv r s2"
    by (auto simp: s2_def)
  from r(2) have "from_srv r c"
    using from_srv_keys[OF address_fold_keys[of s2 as], of r] c(2) by simp
  with r(1) PTR show ?thesis by (auto simp: rs_def)
qed

lemma buildServicesFor_elem:
  assumes "c \<in> set (buildServicesFor E dt n pkt ref t)"
  shows "\<exists>p \<in> set (live_records pkt). \<exists>r \<in> set (live_records pkt). \<exists>pd.
           rdata p = PTR pd \<and> dnsEqual E (rname p) n \<and> dnsEqual E (rname r) pd \<and> from_srv r c"
proof -
  from assms obtain p where p: "p \<in> set (live_records pkt)" "dnsEqual E (rname p) n"
    "build_service E dt (live_records pkt) ref t p = Some c"
    by (auto simp: buildServicesFor_def Let_def List.map_filter_def)
  from build_service_Some[OF p(3)] p(1,2) show ?thesis by blast
qed

lemma from_srv_named:
  "from_srv r c \<Longrightarrow> name c \<noteq> None \<and> fqdn c \<noteq> None \<and> host c \<noteq> None \<and> port c \<noteq> None"
  by (auto simp: from_srv_def split: rdata.splits)

lemma from_srv_rtype: "from_srv r c \<Longrightarrow> rtype r = ''SRV''"
  by (auto simp: from_srv_def rtype_def split: rdata.splits)

lemma buildServicesFor_named:
  "c \<in> set (buildServicesFor E dt n pkt ref t) \<Longrightarrow>
     name c \<noteq> None \<and> fqdn c \<noteq> None \<and> host c \<noteq> None \<and> port c \<noteq> None"
  using buildServicesFor_elem from_srv_named by blast

subsection \<open>DNS equality of optional names\<close>

lemma dnsEqualU_sym: "equivp (dnsEqual E) \<Longrightarrow> dnsEqualU E a b \<Longrightarrow> dnsEqualU E b a"
  by (auto simp: dnsEqualU_def split: option.splits dest: equivp_symp)

lemma dnsEqualU_trans:
  "equivp (dnsEqual E) \<Longrightarrow> dnsEqualU E a b \<Longrightarrow> dnsEqualU E b c \<Longrightarrow> dnsEqualU E a c"
  by (auto simp: dnsEqualU_def split: option.splits dest: equivp_transp)

lemma dnsEqualU_refl: "equivp (dnsEqual E) \<Longrightarrow> a \<noteq> None \<Longrightarrow> dnsEqualU E a a"
  by (auto simp: dnsEqualU_def split: option.splits dest: equivp_reflp)

subsection \<open>Lists of pairwise different names\<close>

lemma dns_distinct_append:
  "dns_distinct E (fs @ [x]) =
     (dns_distinct E fs \<and> (\<forall>f \<in> set fs. \<not> dnsEqualU E f x \<and> \<not> dnsEqualU E x f))"
  by (induction fs) auto

lemma dns_distinct_replace:
  assumes eq: "equivp (dnsEqual E)" and d: "dns_distinct E fs"
  shows "dns_distinct E (map (\<lambda>f. if \<not> dnsEqualU E f x then f else x) fs)"
  using d
proof (induction fs)
  case Nil
  show ?case by simp
next
  case (Cons f fs)
  from Cons.prems have d: "dns_distinct E fs"
    and nf: "\<And>g. g \<in> set fs \<Longrightarrow> \<not> dnsEqualU E f g \<and> \<not> dnsEqualU E g f" by auto
  from Cons.IH[OF d] have IH: "dns_distinct E (map (\<lambda>f. if \<not> dnsEqualU E f x then f else x) fs)" .
  show ?case
  proof (cases "dnsEqualU E f x")
    case True
    have "\<not> dnsEqualU E g x" if "g \<in> set fs" for g
    proof
      assume "dnsEqualU E g x"
      with True eq have "dnsEqualU E f g"
        using dnsEqualU_sym dnsEqualU_trans by blast
      with nf[OF that] show False by simp
    qed
    then have same: "map (\<lambda>f. if \<not> dnsEqualU E f x then f else x) fs = fs"
      by (induction fs) auto
    have "\<not> dnsEqualU E x g \<and> \<not> dnsEqualU E g x" if "g \<in> set fs" for g
      using \<open>\<And>g. g \<in> set fs \<Longrightarrow> \<not> dnsEqualU E g x\<close>[OF that] dnsEqualU_sym[OF eq] by blast
    with True d show ?thesis by (simp add: same)
  next
    case False
    then have nx: "\<not> dnsEqualU E x f" using dnsEqualU_sym[OF eq] by blast
    from False nx nf IH show ?thesis by auto
  qed
qed

lemma set_remove_first: "set (remove_first P ss) \<subseteq> set ss"
  by (induction ss) auto

lemma dns_distinct_remove_first:
  "dns_distinct E (map fqdn ss) \<Longrightarrow> dns_distinct E (map fqdn (remove_first P ss))"
proof (induction ss)
  case Nil
  show ?case by simp
next
  case (Cons s ss)
  from Cons set_remove_first[of P ss] show ?case by auto
qed

lemma dns_distinct_filter:
  "dns_distinct E (map fqdn ss) \<Longrightarrow> dns_distinct E (map fqdn (filter P ss))"
  by (induction ss) auto

lemma fqdn_touch_first: "map fqdn (touch_first P t ss) = map fqdn ss"
  by (induction ss) auto

lemma stored_named_touch_first: "stored_named (touch_first P t ss) = stored_named ss"
  by (induction ss) (auto simp: stored_named_def)

lemma find_None_iff_all: "find P xs = None \<longleftrightarrow> (\<forall>x \<in> set xs. \<not> P x)"
  by (induction xs) auto

subsection \<open>Every method keeps the names of the known services different\<close>

lemma uniq_removeService:
  "uniq_fqdn E (services b) \<Longrightarrow> uniq_fqdn E (services (removeService E b fq))"
  by (auto simp: removeService_find emit_def uniq_fqdn_def dns_distinct_remove_first
      split: option.splits)

lemma uniq_addService:
  assumes eq: "equivp (dnsEqual E)" and ok: "uniq_fqdn E (services b)"
    and new: "find (\<lambda>s. dnsEqualU E (fqdn s) (fqdn c)) (services b) = None"
  shows "uniq_fqdn E (services (addService E b c))"
proof -
  from new have "\<forall>s \<in> set (services b). \<not> dnsEqualU E (fqdn s) (fqdn c)"
    by (simp add: find_None_iff_all)
  then have "\<forall>s \<in> set (services b).
      \<not> dnsEqualU E (fqdn s) (fqdn c) \<and> \<not> dnsEqualU E (fqdn c) (fqdn s)"
    using dnsEqualU_sym[OF eq] by blast
  with ok show ?thesis
    by (auto simp: addService_def emit_def uniq_fqdn_def dns_distinct_append)
qed

lemma fqdn_replace:
  "map fqdn (map (\<lambda>s. if \<not> dnsEqualU E (fqdn s) (fqdn c) then s else c) ss)
     = map (\<lambda>f. if \<not> dnsEqualU E f (fqdn c) then f else fqdn c) (map fqdn ss)"
  by (induction ss) auto

lemma uniq_replaceService:
  assumes eq: "equivp (dnsEqual E)" and ok: "uniq_fqdn E (services b)"
  shows "uniq_fqdn E (services (replaceService E b c))"
proof -
  from ok have "dns_distinct E (map fqdn (services b))"
    by (simp only: uniq_fqdn_def)
  from dns_distinct_replace[OF eq this, of "fqdn c"]
  have "uniq_fqdn E (map (\<lambda>s. if \<not> dnsEqualU E (fqdn s) (fqdn c) then s else c) (services b))"
    by (simp only: uniq_fqdn_def fqdn_replace)
  then show ?thesis
    by (simp add: replaceService_def)
qed

lemma services_emit: "services (emit b e) = services b"
  by (simp add: emit_def)

lemma uniq_updateServiceSrv:
  "equivp (dnsEqual E) \<Longrightarrow> uniq_fqdn E (services b) \<Longrightarrow>
     uniq_fqdn E (services (updateServiceSrv E b ex c))"
  by (simp add: updateServiceSrv_def services_emit uniq_replaceService)

lemma uniq_updateServiceTxt:
  "equivp (dnsEqual E) \<Longrightarrow> uniq_fqdn E (services b) \<Longrightarrow>
     uniq_fqdn E (services (updateServiceTxt E b ex c))"
  by (simp add: updateServiceTxt_def services_emit uniq_replaceService uniq_removeService)

lemma uniq_onresponse_match:
  assumes eq: "equivp (dnsEqual E)" and ok: "uniq_fqdn E (services b)"
  shows "uniq_fqdn E (services (onresponse_match E b c))"
proof (cases "find (\<lambda>s. dnsEqualU E (fqdn s) (fqdn c)) (services b)")
  case None
  with uniq_addService[OF eq ok] show ?thesis by (simp add: onresponse_match_def)
next
  case (Some found)
  let ?b1 = "b\<lparr>services := touch_first (\<lambda>s. dnsEqualU E (fqdn s) (fqdn c)) (lastSeen c) (services b)\<rparr>"
  from ok have "uniq_fqdn E (services ?b1)"
    by (simp add: uniq_fqdn_def fqdn_touch_first)
  from uniq_updateServiceTxt[OF eq uniq_updateServiceSrv[OF eq this]] Some
  show ?thesis by (simp add: onresponse_match_def Let_def)
qed

lemma uniq_matches:
  assumes eq: "equivp (dnsEqual E)"
  shows "uniq_fqdn E (services b) \<Longrightarrow> uniq_fqdn E (services (foldl (onresponse_match E) b cs))"
  by (induction cs arbitrary: b) (simp_all add: uniq_onresponse_match[OF eq])

lemma uniq_unregister_goodbyes:
  assumes "uniq_fqdn E (services b)"
  shows "uniq_fqdn E (services (unregister_goodbyes E b n pkt))"
proof -
  have "uniq_fqdn E (services b) \<Longrightarrow> uniq_fqdn E (services (foldl (removeService E) b fs))" for fs
    by (induction fs arbitrary: b) (simp_all add: uniq_removeService)
  with assms show ?thesis
    by (simp add: unregister_goodbyes_def)
qed

lemma uniq_onresponse_name:
  assumes eq: "equivp (dnsEqual E)" and ok: "uniq_fqdn E (services b)"
  shows "uniq_fqdn E (services (onresponse_name E pkt ref t b n))"
  using uniq_matches[OF eq uniq_unregister_goodbyes[OF ok]] uniq_unregister_goodbyes[OF ok]
  by (simp add: onresponse_name_def Let_def)

lemma services_onresponse_answer: "services (onresponse_answer b a) = services b"
  by (simp add: onresponse_answer_def mdns_query_def split: rdata.splits)

lemma services_wildcard: "services (foldl onresponse_answer b as) = services b"
  by (induction as arbitrary: b) (simp_all add: services_onresponse_answer)

lemma uniq_onresponse_handler:
  assumes eq: "equivp (dnsEqual E)" and ok: "uniq_fqdn E (services b)"
  shows "uniq_fqdn E (services (onresponse_handler E b pkt ref t))"
proof -
  have n: "uniq_fqdn E (services b') \<Longrightarrow>
      uniq_fqdn E (services (foldl (onresponse_name E pkt ref t) b' ns))" for b' ns
    by (induction ns arbitrary: b') (simp_all add: uniq_onresponse_name[OF eq])
  have "uniq_fqdn E (services (if wildcard b then foldl onresponse_answer b (answers pkt) else b))"
    using ok by (simp add: services_wildcard)
  from n[OF this] show ?thesis by (simp add: onresponse_handler_def Let_def)
qed

lemma services_expire: "services (expire b t) = filter (\<lambda>s. \<not> expired_at t s) (services b)"
  by (simp add: expire_def expire_fold)

lemma services_start_stop_update:
  "services (start b) = services b" "services (stop b) = services b"
  "services (update b) = services b"
  by (simp_all add: start_def stop_def update_def mdns_query_def split: option.splits)

lemma uniq_step:
  "equivp (dnsEqual E) \<Longrightarrow> uniq_fqdn E (services b) \<Longrightarrow> uniq_fqdn E (services (step E b a))"
  by (cases a)
    (simp_all add: step_def services_start_stop_update services_expire uniq_onresponse_handler,
     simp add: uniq_fqdn_def dns_distinct_filter)

lemma uniq_run:
  "equivp (dnsEqual E) \<Longrightarrow> uniq_fqdn E (services b) \<Longrightarrow> uniq_fqdn E (services (run E b as))"
  unfolding run_def by (induction as arbitrary: b) (simp_all add: uniq_step)

lemma services_Browser: "services (Browser E m opts) = []"
  by (auto simp: Browser_def new_Browser_def start_def update_def mdns_query_def Let_def
      split: opts.splits option.splits)

subsection \<open>Every known service has the keys of an SRV record\<close>

lemma stored_removeService:
  "stored_named (services b) \<Longrightarrow> stored_named (services (removeService E b fq))"
  using set_remove_first[of "\<lambda>s. dnsEqualU E (fqdn s) fq" "services b"]
  by (auto simp: removeService_find emit_def stored_named_def split: option.splits)

lemma stored_addService:
  "stored_named (services b) \<Longrightarrow> named c \<Longrightarrow> stored_named (services (addService E b c))"
  by (auto simp: addService_def emit_def stored_named_def named_def)

lemma stored_replaceService:
  "stored_named (services b) \<Longrightarrow> named c \<Longrightarrow> stored_named (services (replaceService E b c))"
  by (auto simp: replaceService_def stored_named_def named_def)

lemma stored_updateServiceSrv:
  "stored_named (services b) \<Longrightarrow> named c \<Longrightarrow>
     stored_named (services (updateServiceSrv E b ex c))"
  by (simp add: updateServiceSrv_def services_emit stored_replaceService)

lemma stored_updateServiceTxt:
  "stored_named (services b) \<Longrightarrow> named c \<Longrightarrow>
     stored_named (services (updateServiceTxt E b ex c))"
  by (simp add: updateServiceTxt_def services_emit stored_replaceService stored_removeService)

lemma stored_onresponse_match:
  assumes ok: "stored_named (services b)" and c: "named c"
  shows "stored_named (services (onresponse_match E b c))"
proof (cases "find (\<lambda>s. dnsEqualU E (fqdn s) (fqdn c)) (services b)")
  case None
  with stored_addService[OF ok c] show ?thesis by (simp add: onresponse_match_def)
next
  case (Some found)
  let ?b1 = "b\<lparr>services := touch_first (\<lambda>s. dnsEqualU E (fqdn s) (fqdn c)) (lastSeen c) (services b)\<rparr>"
  from ok have "stored_named (services ?b1)"
    by (simp add: stored_named_touch_first)
  from stored_updateServiceTxt[OF stored_updateServiceSrv[OF this c] c] Some
  show ?thesis by (simp add: onresponse_match_def Let_def)
qed

lemma stored_matches:
  "stored_named (services b) \<Longrightarrow> \<forall>c \<in> set cs. named c \<Longrightarrow>
     stored_named (services (foldl (onresponse_match E) b cs))"
  by (induction cs arbitrary: b) (simp_all add: stored_onresponse_match)

lemma stored_unregister_goodbyes:
  assumes "stored_named (services b)"
  shows "stored_named (services (unregister_goodbyes E b n pkt))"
proof -
  have "stored_named (services b) \<Longrightarrow> stored_named (services (foldl (removeService E) b fs))" for fs
    by (induction fs arbitrary: b) (simp_all add: stored_removeService)
  with assms show ?thesis
    by (simp add: unregister_goodbyes_def)
qed

lemma stored_onresponse_name:
  assumes ok: "stored_named (services b)"
  shows "stored_named (services (onresponse_name E pkt ref t b n))"
proof -
  let ?b1 = "unregister_goodbyes E b n pkt"
  have 1: "stored_named (services ?b1)" by (rule stored_unregister_goodbyes[OF ok])
  have "\<forall>c \<in> set (buildServicesFor E (dnstxt ?b1) n pkt ref t). named c"
    using buildServicesFor_named by (auto simp: named_def)
  from stored_matches[OF 1 this] 1 show ?thesis
    by (simp add: onresponse_name_def Let_def)
qed

lemma stored_onresponse_handler:
  assumes ok: "stored_named (services b)"
  shows "stored_named (services (onresponse_handler E b pkt ref t))"
proof -
  have n: "stored_named (services b') \<Longrightarrow>
      stored_named (services (foldl (onresponse_name E pkt ref t) b' ns))" for b' ns
    by (induction ns arbitrary: b') (simp_all add: stored_onresponse_name)
  have "stored_named (services (if wildcard b then foldl onresponse_answer b (answers pkt) else b))"
    using ok by (simp add: services_wildcard)
  from n[OF this] show ?thesis by (simp add: onresponse_handler_def Let_def)
qed

lemma stored_step: "stored_named (services b) \<Longrightarrow> stored_named (services (step E b a))"
  by (cases a)
    (simp_all add: step_def services_start_stop_update services_expire stored_onresponse_handler,
     simp add: stored_named_def)

lemma stored_run: "stored_named (services b) \<Longrightarrow> stored_named (services (run E b as))"
  unfolding run_def by (induction as arbitrary: b) (simp_all add: stored_step)

lemma dns_distinct_distinct:
  assumes eq: "equivp (dnsEqual E)"
  shows "dns_distinct E fs \<Longrightarrow> None \<notin> set fs \<Longrightarrow> distinct fs"
proof (induction fs)
  case Nil
  show ?case by simp
next
  case (Cons f fs)
  from Cons.prems have "f \<noteq> None" by (cases f) simp_all
  from dnsEqualU_refl[OF eq this] have "dnsEqualU E f f" .
  with Cons.prems have "f \<notin> set fs" by auto
  with Cons show ?case by auto
qed

lemma spec_dnsEqual_equivp: "equivp (dnsEqual spec_env)"
  by (rule equivpI) (auto simp: spec_env_def spec_dnsEqual_def reflp_def symp_def transp_def)

subsection \<open>Claim C6: no candidate without an SRV record\<close>

text \<open>
  C6. Every candidate \<open>buildServicesFor\<close> returns for a tracked name comes from a live
  PTR record of that name and a live SRV record whose name is DNS-equal to the
  instance name the PTR record points to, and has its name, fully-qualified name,
  host and port from that SRV record. A packet without a live SRV record yields no
  candidate. Hence every service a browser ever knows has these four keys.
\<close>

theorem candidates_need_an_SRV_record:
  "(\<forall>c \<in> set (buildServicesFor E dt n pkt ref t).
      \<exists>p \<in> set (live_records pkt). \<exists>r \<in> set (live_records pkt). \<exists>pd.
        rdata p = PTR pd \<and> dnsEqual E (rname p) n \<and> dnsEqual E (rname r) pd \<and> from_srv r c)
   \<and> ((\<forall>r \<in> set (live_records pkt). rtype r \<noteq> ''SRV'') \<longrightarrow>
        buildServicesFor E dt n pkt ref t = [])
   \<and> stored_named (services (run E (Browser E m opts) as))"
proof (intro conjI ballI impI)
  fix c assume "c \<in> set (buildServicesFor E dt n pkt ref t)"
  then show "\<exists>p \<in> set (live_records pkt). \<exists>r \<in> set (live_records pkt). \<exists>pd.
        rdata p = PTR pd \<and> dnsEqual E (rname p) n \<and> dnsEqual E (rname r) pd \<and> from_srv r c"
    by (rule buildServicesFor_elem)
next
  assume no: "\<forall>r \<in> set (live_records pkt). rtype r \<noteq> ''SRV''"
  show "buildServicesFor E dt n pkt ref t = []"
  proof (rule ccontr)
    assume "buildServicesFor E dt n pkt ref t \<noteq> []"
    then obtain c where "c \<in> set (buildServicesFor E dt n pkt ref t)"
      by (cases "buildServicesFor E dt n pkt ref t") auto
    from buildServicesFor_elem[OF this] obtain r where "r \<in> set (live_records pkt)" "from_srv r c"
      by blast
    with no from_srv_rtype show False by blast
  qed
next
  show "stored_named (services (run E (Browser E m opts) as))"
    by (rule stored_run) (simp add: services_Browser stored_named_def)
qed

theorem candidates_need_an_SRV_record_witness:
  "buildServicesFor spec_env None ''_http._tcp.local'' announce_packet rinfo0 1000 = [printer 1000]
   \<and> (\<exists>p \<in> set (live_records announce_packet). \<exists>r \<in> set (live_records announce_packet). \<exists>pd.
        rdata p = PTR pd \<and> dnsEqual spec_env (rname p) ''_http._tcp.local''
        \<and> dnsEqual spec_env (rname r) pd \<and> from_srv r (printer 1000))
   \<and> buildServicesFor spec_env None ''_http._tcp.local'' no_srv_packet rinfo0 1000 = []
   \<and> stored_named (services (run spec_env (Browser spec_env mdns0 (OptsConfig http_config))
        [Response announce_packet rinfo0 1000]))"
proof -
  have b: "buildServicesFor spec_env None ''_http._tcp.local'' announce_packet rinfo0 1000
      = [printer 1000]"
    by code_simp
  have n: "\<forall>r \<in> set (live_records no_srv_packet). rtype r \<noteq> ''SRV''"
    by code_simp
  from candidates_need_an_SRV_record[of spec_env None "''_http._tcp.local''" announce_packet
      rinfo0 1000 mdns0 "OptsConfig http_config" "[Response announce_packet rinfo0 1000]"] b
  have 1: "\<exists>p \<in> set (live_records announce_packet). \<exists>r \<in> set (live_records announce_packet). \<exists>pd.
        rdata p = PTR pd \<and> dnsEqual spec_env (rname p) ''_http._tcp.local''
        \<and> dnsEqual spec_env (rname r) pd \<and> from_srv r (printer 1000)"
    and 3: "stored_named (services (run spec_env (Browser spec_env mdns0 (OptsConfig http_config))
        [Response announce_packet rinfo0 1000]))"
    by simp_all
  from candidates_need_an_SRV_record[of spec_env None "''_http._tcp.local''" no_srv_packet
      rinfo0 1000] n
  have 2: "buildServicesFor spec_env None ''_http._tcp.local'' no_srv_packet rinfo0 1000 = []"
    by blast
  from b 1 2 3 show ?thesis by blast
qed


subsection \<open>Claim C7: one service per fully-qualified name\<close>

text \<open>
  C7. In every state a browser reaches from its construction by calls of \<open>start\<close>,
  \<open>stop\<close>, \<open>update\<close> and \<open>expire\<close> and by packets, no two known services have
  DNS-equal fully-qualified names; in particular no fully-qualified name occurs twice.
  Every single call or packet keeps it so from any state. This needs of \<open>dnsEqual\<close>
  that it is an equivalence relation.
\<close>

theorem one_service_per_fqdn:
  assumes "equivp (dnsEqual E)"
  shows "uniq_fqdn E (services (run E (Browser E m opts) as))
       \<and> distinct (map fqdn (services (run E (Browser E m opts) as)))
       \<and> (uniq_fqdn E (services b) \<longrightarrow> uniq_fqdn E (services (step E b a)))"
proof -
  have st: "uniq_fqdn E (services b) \<longrightarrow> uniq_fqdn E (services (step E b a))"
    using uniq_step[OF assms] by blast
  have u: "uniq_fqdn E (services (run E (Browser E m opts) as))"
    by (rule uniq_run[OF assms]) (simp add: services_Browser uniq_fqdn_def)
  have "stored_named (services (run E (Browser E m opts) as))"
    by (rule stored_run) (simp add: services_Browser stored_named_def)
  then have "None \<notin> set (map fqdn (services (run E (Browser E m opts) as)))"
    by (auto simp: stored_named_def)
  from dns_distinct_distinct[OF assms u[unfolded uniq_fqdn_def] this] u st
  show ?thesis by simp
qed

theorem one_service_per_fqdn_witness:
  "services (run spec_env (Browser spec_env mdns0 (OptsConfig http_config))
      [Response announce_packet rinfo0 1000, Response announce_packet rinfo0 2000])
     = [printer 2000]
   \<and> uniq_fqdn spec_env (services (run spec_env (Browser spec_env mdns0 (OptsConfig http_config))
      [Response announce_packet rinfo0 1000, Response announce_packet rinfo0 2000]))
   \<and> distinct (map fqdn (services (run spec_env (Browser spec_env mdns0 (OptsConfig http_config))
      [Response announce_packet rinfo0 1000, Response announce_packet rinfo0 2000])))"
proof -
  have s: "services (run spec_env (Browser spec_env mdns0 (OptsConfig http_config))
      [Response announce_packet rinfo0 1000, Response announce_packet rinfo0 2000])
     = [printer 2000]"
    by code_simp
  from one_service_per_fqdn[OF spec_dnsEqual_equivp, of mdns0 "OptsConfig http_config"
      "[Response announce_packet rinfo0 1000, Response announce_packet rinfo0 2000]"] s
  show ?thesis by blast
qed

subsection \<open>The update path\<close>

lemma srv_changed_touch: "srv_changed (found\<lparr>lastSeen := t\<rparr>) c = srv_changed found c"
  by (simp add: srv_changed_def addresses_toString_def)

lemma txt_changed_touch: "txt_changed E (found\<lparr>lastSeen := t\<rparr>) c = txt_changed E found c"
  by (simp add: txt_changed_def)

lemma updateServiceSrv_eq:
  "updateServiceSrv E b ex c =
     (if srv_changed ex c then emit (replaceService E b c) (SrvUpdate c ex) else b)"
  by (simp add: updateServiceSrv_def srv_changed_def)

lemma updateServiceTxt_eq:
  "updateServiceTxt E b ex c =
     (if \<not> txt_changed E ex c then b
      else if \<not> filterService E c (txtQuery b) then removeService E b (fqdn c)
      else emit (replaceService E b c) (TxtUpdate c ex))"
  by (simp add: updateServiceTxt_def txt_changed_def)

lemma replace_touch_first:
  "map (\<lambda>s. if \<not> dnsEqualU E (fqdn s) f then s else c)
       (touch_first (\<lambda>s. dnsEqualU E (fqdn s) f) t ss)
   = map (\<lambda>s. if \<not> dnsEqualU E (fqdn s) f then s else c) ss"
  by (induction ss) auto

lemma find_touch_first:
  "find (\<lambda>s. dnsEqualU E (fqdn s) f) ss = Some found \<Longrightarrow>
   find (\<lambda>s. dnsEqualU E (fqdn s) f) (touch_first (\<lambda>s. dnsEqualU E (fqdn s) f) t ss)
     = Some (found\<lparr>lastSeen := t\<rparr>)"
  by (induction ss) (auto split: if_splits)

lemma remove_touch_first:
  "remove_first (\<lambda>s. dnsEqualU E (fqdn s) f) (touch_first (\<lambda>s. dnsEqualU E (fqdn s) f) t ss)
   = remove_first (\<lambda>s. dnsEqualU E (fqdn s) f) ss"
  by (induction ss) auto

lemma find_replace:
  "find (\<lambda>s. dnsEqualU E (fqdn s) f) ss = Some found \<Longrightarrow> dnsEqualU E (fqdn c) f \<Longrightarrow>
   find (\<lambda>s. dnsEqualU E (fqdn s) f) (map (\<lambda>s. if \<not> dnsEqualU E (fqdn s) f then s else c) ss)
     = Some c"
  by (induction ss) (auto split: if_splits)

lemma replace_replace:
  "map (\<lambda>s. if \<not> dnsEqualU E (fqdn s) f then s else c)
     (map (\<lambda>s. if \<not> dnsEqualU E (fqdn s) f then s else c) ss)
   = map (\<lambda>s. if \<not> dnsEqualU E (fqdn s) f then s else c) ss"
  by (induction ss) auto

lemma uniq_no_second:
  assumes eq: "equivp (dnsEqual E)"
    and u: "uniq_fqdn E (s # ss)" and p: "dnsEqualU E (fqdn s) f"
  shows "\<forall>x \<in> set ss. \<not> dnsEqualU E (fqdn x) f"
proof
  fix x assume x: "x \<in> set ss"
  show "\<not> dnsEqualU E (fqdn x) f"
  proof
    assume "dnsEqualU E (fqdn x) f"
    with p have "dnsEqualU E (fqdn s) (fqdn x)"
      using dnsEqualU_sym[OF eq] dnsEqualU_trans[OF eq] by blast
    with u x show False by (auto simp: uniq_fqdn_def)
  qed
qed

lemma uniq_remove_first_filter:
  assumes eq: "equivp (dnsEqual E)"
  shows "uniq_fqdn E ss \<Longrightarrow>
     remove_first (\<lambda>s. dnsEqualU E (fqdn s) f) ss = filter (\<lambda>s. \<not> dnsEqualU E (fqdn s) f) ss"
proof (induction ss)
  case Nil
  show ?case by simp
next
  case (Cons s ss)
  from Cons.prems have u: "uniq_fqdn E ss" by (simp add: uniq_fqdn_def)
  show ?case
  proof (cases "dnsEqualU E (fqdn s) f")
    case True
    from uniq_no_second[OF eq Cons.prems True]
    have "filter (\<lambda>s. \<not> dnsEqualU E (fqdn s) f) ss = ss"
      by (simp add: filter_id_conv)
    with True show ?thesis by simp
  next
    case False
    with Cons.IH[OF u] show ?thesis by simp
  qed
qed

lemma uniq_remove_replace_filter:
  assumes eq: "equivp (dnsEqual E)" and c: "dnsEqualU E (fqdn c) f"
  shows "uniq_fqdn E ss \<Longrightarrow>
     remove_first (\<lambda>s. dnsEqualU E (fqdn s) f)
        (map (\<lambda>s. if \<not> dnsEqualU E (fqdn s) f then s else c) ss)
     = filter (\<lambda>s. \<not> dnsEqualU E (fqdn s) f) ss"
proof (induction ss)
  case Nil
  show ?case by simp
next
  case (Cons s ss)
  from Cons.prems have u: "uniq_fqdn E ss" by (simp add: uniq_fqdn_def)
  show ?case
  proof (cases "dnsEqualU E (fqdn s) f")
    case True
    from uniq_no_second[OF eq Cons.prems True]
    have n: "\<forall>x \<in> set ss. \<not> dnsEqualU E (fqdn x) f" .
    then have "filter (\<lambda>s. \<not> dnsEqualU E (fqdn s) f) ss = ss"
      by (simp add: filter_id_conv)
    moreover from n have "map (\<lambda>s. if \<not> dnsEqualU E (fqdn s) f then s else c) ss = ss"
      by (induction ss) auto
    ultimately show ?thesis using True c by simp
  next
    case False
    with Cons.IH[OF u] show ?thesis by simp
  qed
qed

text \<open>What the callback does with a candidate whose service is known.\<close>

lemma onresponse_match_known:
  assumes known: "find (\<lambda>s. dnsEqualU E (fqdn s) (fqdn c)) (services b) = Some found"
  shows "onresponse_match E b c =
     updateServiceTxt E
       (updateServiceSrv E
          (b\<lparr>services := touch_first (\<lambda>s. dnsEqualU E (fqdn s) (fqdn c)) (lastSeen c) (services b)\<rparr>)
          (found\<lparr>lastSeen := lastSeen c\<rparr>) c)
       (found\<lparr>lastSeen := lastSeen c\<rparr>) c"
  using known by (simp add: onresponse_match_def Let_def)

lemma new_events_emit: "new_events b (emit b' e) = new_events b b' @ [e]" if "length (events b) \<le> length (events b')"
  using that by (simp add: new_events_def emit_def)

lemma match_known_events_services:
  assumes known: "find (\<lambda>s. dnsEqualU E (fqdn s) (fqdn c)) (services b) = Some found"
    and self: "dnsEqualU E (fqdn c) (fqdn c)"
  shows "events (onresponse_match E b c) = events b
        @ (if srv_changed found c then [SrvUpdate c (found\<lparr>lastSeen := lastSeen c\<rparr>)] else [])
        @ (if \<not> txt_changed E found c then []
           else if filterService E c (txtQuery b)
           then [TxtUpdate c (found\<lparr>lastSeen := lastSeen c\<rparr>)]
           else [Down (if srv_changed found c then c else found\<lparr>lastSeen := lastSeen c\<rparr>)])"
    and "services (onresponse_match E b c) =
        (if txt_changed E found c \<and> \<not> filterService E c (txtQuery b)
         then remove_first (\<lambda>s. dnsEqualU E (fqdn s) (fqdn c))
                (if srv_changed found c
                 then map (\<lambda>s. if \<not> dnsEqualU E (fqdn s) (fqdn c) then s else c) (services b)
                 else services b)
         else if srv_changed found c \<or> txt_changed E found c
         then map (\<lambda>s. if \<not> dnsEqualU E (fqdn s) (fqdn c) then s else c) (services b)
         else touch_first (\<lambda>s. dnsEqualU E (fqdn s) (fqdn c)) (lastSeen c) (services b))"
  unfolding onresponse_match_known[OF known] updateServiceTxt_eq updateServiceSrv_eq
    srv_changed_touch txt_changed_touch
  using find_touch_first[OF known, of "lastSeen c"] find_replace[OF known self]
  by (simp_all add: emit_def replaceService_def removeService_find replace_touch_first
      replace_replace remove_touch_first)

lemma events_grow_match_known:
  assumes known: "find (\<lambda>s. dnsEqualU E (fqdn s) (fqdn c)) (services b) = Some found"
    and self: "dnsEqualU E (fqdn c) (fqdn c)"
  shows "new_events b (onresponse_match E b c) =
          (if srv_changed found c then [SrvUpdate c (found\<lparr>lastSeen := lastSeen c\<rparr>)] else [])
        @ (if \<not> txt_changed E found c then []
           else if filterService E c (txtQuery b)
           then [TxtUpdate c (found\<lparr>lastSeen := lastSeen c\<rparr>)]
           else [Down (if srv_changed found c then c else found\<lparr>lastSeen := lastSeen c\<rparr>)])"
  unfolding new_events_def match_known_events_services(1)[OF known self] by simp

lemma find_Some_self:
  "find (\<lambda>s. dnsEqualU E (fqdn s) f) ss = Some found \<Longrightarrow> dnsEqualU E (fqdn found) f"
  by (induction ss) (auto split: if_splits)

lemma run_v1_announce:
  "run spec_env (Browser spec_env mdns0 (OptsConfig http_config_v1))
     [Response announce_packet rinfo0 1000] = printer_known_v1 1000"
  by code_simp

lemma match_known_admitted:
  assumes known: "find (\<lambda>s. dnsEqualU E (fqdn s) (fqdn c)) (services b) = Some found"
    and admitted: "txt_changed E found c \<Longrightarrow> filterService E c (txtQuery b)"
  shows "new_events b (onresponse_match E b c) =
          (if srv_changed found c then [SrvUpdate c (found\<lparr>lastSeen := lastSeen c\<rparr>)] else [])
        @ (if txt_changed E found c then [TxtUpdate c (found\<lparr>lastSeen := lastSeen c\<rparr>)] else [])"
    and "services (onresponse_match E b c) =
          (if srv_changed found c \<or> txt_changed E found c
           then map (\<lambda>s. if dnsEqualU E (fqdn s) (fqdn c) then c else s) (services b)
           else touch_first (\<lambda>s. dnsEqualU E (fqdn s) (fqdn c)) (lastSeen c) (services b))"
proof -
  have m: "map (\<lambda>s. if \<not> dnsEqualU E (fqdn s) (fqdn c) then s else c) ss
      = map (\<lambda>s. if dnsEqualU E (fqdn s) (fqdn c) then c else s) ss" for ss
    by (rule map_cong) auto
  show "new_events b (onresponse_match E b c) =
          (if srv_changed found c then [SrvUpdate c (found\<lparr>lastSeen := lastSeen c\<rparr>)] else [])
        @ (if txt_changed E found c then [TxtUpdate c (found\<lparr>lastSeen := lastSeen c\<rparr>)] else [])"
    unfolding new_events_def onresponse_match_known[OF known] updateServiceTxt_eq
      updateServiceSrv_eq srv_changed_touch txt_changed_touch
    using admitted by (simp add: emit_def replaceService_def)
  show "services (onresponse_match E b c) =
          (if srv_changed found c \<or> txt_changed E found c
           then map (\<lambda>s. if dnsEqualU E (fqdn s) (fqdn c) then c else s) (services b)
           else touch_first (\<lambda>s. dnsEqualU E (fqdn s) (fqdn c)) (lastSeen c) (services b))"
    unfolding onresponse_match_known[OF known] updateServiceTxt_eq
      updateServiceSrv_eq srv_changed_touch txt_changed_touch
    using admitted replace_touch_first[of E "fqdn c" c "lastSeen c" "services b"]
      replace_replace[of E "fqdn c" c "services b"]
    by (auto simp add: emit_def replaceService_def m)
qed

subsection \<open>Candidates of a packet without TXT records\<close>

lemma srv_txt_step_no_txt:
  "rtype r \<noteq> ''TXT'' \<Longrightarrow> txt_keys (srv_txt_step E dt ref s r) = txt_keys s"
  by (cases "rdata r") (simp_all add: srv_txt_step_def txt_keys_def rtype_def Let_def)

lemma srv_txt_fold_no_txt:
  "\<forall>r \<in> set rs. rtype r \<noteq> ''TXT'' \<Longrightarrow>
     txt_keys (foldl (srv_txt_step E dt ref) s rs) = txt_keys s"
  by (induction rs arbitrary: s) (simp_all add: srv_txt_step_no_txt)

lemma address_fold_txt: "txt_keys (foldl address_step s rs) = txt_keys s"
  by (induction rs arbitrary: s) (auto simp: address_step_def txt_keys_def split: option.splits)

lemma subtype_fold_txt: "txt_keys (foldl (subtype_step E) s rs) = txt_keys s"
  by (induction rs arbitrary: s) (auto simp: subtype_step_def txt_keys_def Let_def)

lemma build_service_no_txt:
  assumes b: "build_service E dt records ref t ptr = Some c"
    and n: "\<forall>r \<in> set records. rtype r \<noteq> ''TXT''"
  shows "txt_keys c = (None, None)"
proof -
  have "\<exists>pd. rdata ptr = PTR pd"
  proof (rule ccontr)
    assume "\<not> (\<exists>pd. rdata ptr = PTR pd)"
    then have "\<forall>pd. rdata ptr \<noteq> PTR pd" by simp
    from build_service_not_PTR[OF this] b show False by simp
  qed
  then obtain pd where PTR: "rdata ptr = PTR pd" ..
  define s0 :: service where "s0 = \<lparr>addresses = [], subtypes = [], ttl = rttl ptr,
                          lastSeen = t, name = None, fqdn = None, host = None,
                          referer = None, port = None, type = None, protocol = None,
                          rawTxt = None, txt = None\<rparr>"
  define s1 where "s1 = foldl (subtype_step E) s0
                  (filter (\<lambda>r. case rdata r of
                       PTR d \<Rightarrow> dnsEqual E d pd \<and> includes_str (rname r) ''._sub''
                     | _ \<Rightarrow> False) records)"
  define rs where "rs = filter (\<lambda>r. (rtype r = ''SRV'' \<or> rtype r = ''TXT'')
                                \<and> dnsEqual E (rname r) pd) records"
  define s2 where "s2 = foldl (srv_txt_step E dt ref) s1 rs"
  define as where "as = filter (\<lambda>r. (rtype r = ''A'' \<or> rtype r = ''AAAA'')
                                \<and> dnsEqualU E (Some (rname r)) (host s2)) records"
  have "build_service E dt records ref t ptr =
      (if no_name s2 then None else Some (foldl address_step s2 as))"
    unfolding build_service_PTR[OF PTR] Let_def s0_def s1_def rs_def s2_def as_def ..
  with b have c: "c = foldl address_step s2 as"
    by (simp_all split: if_splits)
  have "txt_keys s0 = (None, None)" by (simp add: s0_def txt_keys_def)
  then have "txt_keys s1 = (None, None)"
    by (simp add: s1_def subtype_fold_txt)
  moreover from n have "\<forall>r \<in> set rs. rtype r \<noteq> ''TXT''" by (simp add: rs_def)
  ultimately have "txt_keys s2 = (None, None)"
    by (simp add: s2_def srv_txt_fold_no_txt)
  then show ?thesis by (simp add: c address_fold_txt)
qed

lemma buildServicesFor_no_txt:
  assumes "c \<in> set (buildServicesFor E dt n pkt ref t)"
    and "\<forall>r \<in> set (live_records pkt). rtype r \<noteq> ''TXT''"
  shows "txt c = None \<and> rawTxt c = None"
proof -
  from assms(1) obtain p where "build_service E dt (live_records pkt) ref t p = Some c"
    by (auto simp: buildServicesFor_def Let_def List.map_filter_def)
  from build_service_no_txt[OF this assms(2)] show ?thesis by (simp add: txt_keys_def)
qed

subsection \<open>Claim C3: the two update events\<close>

lemma spec_env_map_equality: "map_equality spec_env"
proof -
  have "list_all (\<lambda>k. map_of a k = map_of b k) (map fst a @ map fst b) = (map_of a = map_of b)"
    for a b :: KeyValue
  proof
    assume h: "list_all (\<lambda>k. map_of a k = map_of b k) (map fst a @ map fst b)"
    show "map_of a = map_of b"
    proof
      fix k
      show "map_of a k = map_of b k"
      proof (cases "k \<in> set (map fst a @ map fst b)")
        case True
        with h show ?thesis by (simp add: list_all_iff)
      next
        case False
        then have "map_of a k = None" "map_of b k = None"
          by (simp_all add: map_of_eq_None_iff)
        then show ?thesis by simp
      qed
    qed
  next
    assume "map_of a = map_of b"
    then show "list_all (\<lambda>k. map_of a k = map_of b k) (map fst a @ map fst b)"
      by (simp add: list_all_iff)
  qed
  then show ?thesis
    by (simp add: map_equality_def spec_env_def spec_equalTxt_def)
qed

lemma txt_changed_maps:
  "map_equality E \<Longrightarrow> txt c = Some tc \<Longrightarrow>
     txt_changed E found c = (map_of tc \<noteq> map_of (stored_txt found))"
  by (simp add: map_equality_def txt_changed_def stored_txt_def)

text \<open>
  C3, as the code has it. Let the candidate carry a TXT record, decoded to \<open>tc\<close>, let
  its service be known, and let \<open>equalTxt\<close> compare two decoded mappings as maps. Then
  the two update events follow what changed between the stored service and the
  candidate, each on its own: \<open>srv-update\<close> is emitted exactly if a key derived from the
  SRV record or the address list differs, then \<open>txt-update\<close> exactly if the decoded TXT
  content of the candidate and that of the stored service differ as maps, both carrying
  the candidate and the stored service with its \<open>lastSeen\<close> refreshed; nothing else is
  emitted. In particular a candidate with the same SRV keys and the same TXT content
  emits nothing. For the \<open>txt-update\<close> the candidate must pass the attribute filter of
  the browser: with a changed TXT content that fails it, the claim as it is written
  does not hold (first part of the counterexample, and claim C4).

  A candidate without TXT record is left out: the code hands \<open>equalTxt\<close> its absent
  mapping, and the outcome is that function's answer for \<open>undefined\<close>. If an absent
  mapping equals none, a service announced twice without TXT record emits a
  \<open>txt-update\<close> although nothing changed (second part of the counterexample).
\<close>

theorem update_events_follow_the_changes:
  assumes known: "find (\<lambda>s. dnsEqualU E (fqdn s) (fqdn c)) (services b) = Some found"
    and maps: "map_equality E"
    and carried: "txt c = Some tc"
    and admitted: "map_of tc \<noteq> map_of (stored_txt found) \<longrightarrow> filterService E c (txtQuery b)"
  shows "new_events b (onresponse_match E b c) =
          (if srv_changed found c then [SrvUpdate c (found\<lparr>lastSeen := lastSeen c\<rparr>)] else [])
        @ (if map_of tc \<noteq> map_of (stored_txt found)
           then [TxtUpdate c (found\<lparr>lastSeen := lastSeen c\<rparr>)] else [])"
  using match_known_admitted(1)[OF known] admitted txt_changed_maps[OF maps carried, of found]
  by simp

theorem update_events_follow_the_changes_witness:
  "new_events (printer_known 1000) (onresponse_match spec_env (printer_known 1000) (printer 2000)) = []
   \<and> new_events (printer_known 1000) (onresponse_match spec_env (printer_known 1000) (printer_v2 2000))
       = [TxtUpdate (printer_v2 2000) (printer 2000)]
   \<and> new_events (printer_known 1000)
        (onresponse_match spec_env (printer_known 1000) (printer_moved 2000))
       = [SrvUpdate (printer_moved 2000) (printer 2000)]
   \<and> new_events (printer_known 1000)
        (onresponse_match spec_env (printer_known 1000) (printer_moved_v2 2000))
       = [SrvUpdate (printer_moved_v2 2000) (printer 2000),
          TxtUpdate (printer_moved_v2 2000) (printer 2000)]"
proof -
  have k: "find (\<lambda>s. dnsEqualU spec_env (fqdn s) (fqdn (printer t))) (services (printer_known 1000))
      = Some (printer 1000)"
    "find (\<lambda>s. dnsEqualU spec_env (fqdn s) (fqdn (printer_v2 t))) (services (printer_known 1000))
      = Some (printer 1000)"
    "find (\<lambda>s. dnsEqualU spec_env (fqdn s) (fqdn (printer_moved_v2 t))) (services (printer_known 1000))
      = Some (printer 1000)"
    "find (\<lambda>s. dnsEqualU spec_env (fqdn s) (fqdn (printer_moved t))) (services (printer_known 1000))
      = Some (printer 1000)" for t
    by (simp_all add: printer_known_def printer_def printer_v2_def printer_moved_v2_def
        printer_moved_def dnsEqualU_def spec_env_def spec_dnsEqual_def)
  have f: "filterService spec_env c (txtQuery (printer_known 1000))" for c
    by (simp add: printer_known_def spec_env_def spec_filterService_def)
  have t1: "txt (printer t) = Some [(''v'', ''1'')]" "txt (printer_moved t) = Some [(''v'', ''1'')]"
    and t2: "txt (printer_v2 t) = Some [(''v'', ''2'')]"
      "txt (printer_moved_v2 t) = Some [(''v'', ''2'')]" for t
    by (simp_all add: printer_def printer_v2_def printer_moved_v2_def printer_moved_def)
  have st: "stored_txt (printer 1000) = [(''v'', ''1'')]"
    by (simp add: stored_txt_def t1)
  have ne: "map_of [(''v'', ''2'')] \<noteq> map_of [(''v'', ''1'' :: string)]"
  proof
    assume "map_of [(''v'', ''2'')] = map_of [(''v'', ''1'' :: string)]"
    then have "map_of [(''v'', ''2'')] ''v'' = map_of [(''v'', ''1'' :: string)] ''v''"
      by (rule arg_cong)
    then show False by simp
  qed
  have c0: "\<not> srv_changed (printer 1000) (printer 2000)"
    "(printer 1000)\<lparr>lastSeen := lastSeen (printer 2000)\<rparr> = printer 2000"
    by code_simp+
  have c1: "\<not> srv_changed (printer 1000) (printer_v2 2000)"
    "(printer 1000)\<lparr>lastSeen := lastSeen (printer_v2 2000)\<rparr> = printer 2000"
    by code_simp+
  have c2: "srv_changed (printer 1000) (printer_moved_v2 2000)"
    "(printer 1000)\<lparr>lastSeen := lastSeen (printer_moved_v2 2000)\<rparr> = printer 2000"
    by code_simp+
  have c3: "srv_changed (printer 1000) (printer_moved 2000)"
    "(printer 1000)\<lparr>lastSeen := lastSeen (printer_moved 2000)\<rparr> = printer 2000"
    by code_simp+
  from update_events_follow_the_changes[OF k(4) spec_env_map_equality t1(2), of 2000] f c3
  have 3: "new_events (printer_known 1000)
        (onresponse_match spec_env (printer_known 1000) (printer_moved 2000))
       = [SrvUpdate (printer_moved 2000) (printer 2000)]"
    by (simp add: st)
  from update_events_follow_the_changes[OF k(1) spec_env_map_equality t1(1), of 2000] f c0
  have 0: "new_events (printer_known 1000)
      (onresponse_match spec_env (printer_known 1000) (printer 2000)) = []"
    by (simp add: st)
  from update_events_follow_the_changes[OF k(2) spec_env_map_equality t2(1), of 2000] f c1 ne
  have 1: "new_events (printer_known 1000)
      (onresponse_match spec_env (printer_known 1000) (printer_v2 2000))
       = [TxtUpdate (printer_v2 2000) (printer 2000)]"
    by (simp add: st)
  from update_events_follow_the_changes[OF k(3) spec_env_map_equality t2(2), of 2000] f c2 ne
  have 2: "new_events (printer_known 1000)
        (onresponse_match spec_env (printer_known 1000) (printer_moved_v2 2000))
       = [SrvUpdate (printer_moved_v2 2000) (printer 2000),
          TxtUpdate (printer_moved_v2 2000) (printer 2000)]"
    by (simp add: st)
  from 0 1 2 3 show ?thesis by blast
qed

theorem txt_change_without_txt_update_counterexample:
  "events (run spec_env (Browser spec_env mdns0 (OptsConfig http_config_v1))
      [Response announce_packet rinfo0 1000, Response announce_v2_packet rinfo0 2000])
     = [Up (printer 1000), Down (printer 2000)]
   \<and> buildServicesFor spec_env (Some [(''v'', ''1'')]) ''_http._tcp.local'' announce_v2_packet
        rinfo0 2000 = [printer_v2 2000]
   \<and> \<not> srv_changed (printer 1000) (printer_v2 2000)
   \<and> txt_changed spec_env (printer 1000) (printer_v2 2000)
   \<and> events (run spec_env (Browser spec_env mdns0 (OptsConfig http_config))
      [Response bare_packet rinfo0 1000, Response bare_packet rinfo0 2000])
     = [Up (printer_bare 1000), TxtUpdate (printer_bare 2000) (printer_bare 2000)]"
  by code_simp

subsection \<open>Claim C4: a TXT update that fails the filter\<close>

text \<open>
  C4. A candidate whose service is known and whose TXT content differs from the stored
  one: if the candidate fails the attribute filter, the browser forgets the service of
  that name and emits \<open>down\<close> for it and no \<open>txt-update\<close>; if it passes, the candidate
  takes the place of the stored service and \<open>txt-update\<close> is emitted with the candidate
  and the stored service. An \<open>srv-update\<close> comes first if the SRV keys differ as well;
  then the service that goes down is the candidate, which has just replaced the stored one.
\<close>

theorem failing_txt_update_goes_down:
  assumes eq: "equivp (dnsEqual E)" and uniq: "uniq_fqdn E (services b)"
    and known: "find (\<lambda>s. dnsEqualU E (fqdn s) (fqdn c)) (services b) = Some found"
    and changed: "txt_changed E found c"
  shows "new_events b (onresponse_match E b c) =
          (if srv_changed found c then [SrvUpdate c (found\<lparr>lastSeen := lastSeen c\<rparr>)] else [])
        @ (if filterService E c (txtQuery b)
           then [TxtUpdate c (found\<lparr>lastSeen := lastSeen c\<rparr>)]
           else [Down (if srv_changed found c then c else found\<lparr>lastSeen := lastSeen c\<rparr>)])
       \<and> services (onresponse_match E b c) =
          (if filterService E c (txtQuery b)
           then map (\<lambda>s. if dnsEqualU E (fqdn s) (fqdn c) then c else s) (services b)
           else filter (\<lambda>s. \<not> dnsEqualU E (fqdn s) (fqdn c)) (services b))"
proof -
  from find_Some_self[OF known] have "dnsEqualU E (fqdn found) (fqdn c)" .
  then have self: "dnsEqualU E (fqdn c) (fqdn c)"
    using dnsEqualU_sym[OF eq] dnsEqualU_trans[OF eq] by blast
  have m: "map (\<lambda>s. if \<not> dnsEqualU E (fqdn s) (fqdn c) then s else c) (services b)
      = map (\<lambda>s. if dnsEqualU E (fqdn s) (fqdn c) then c else s) (services b)"
    by (rule map_cong) auto
  from events_grow_match_known[OF known self] changed
    match_known_events_services(2)[OF known self]
    uniq_remove_first_filter[OF eq uniq, of "fqdn c"]
    uniq_remove_replace_filter[OF eq self uniq]
  show ?thesis by (simp add: m)
qed

theorem failing_txt_update_goes_down_witness:
  "new_events (printer_known_v1 1000)
      (onresponse_match spec_env (printer_known_v1 1000) (printer_v2 2000))
     = [Down (printer 2000)]
   \<and> services (onresponse_match spec_env (printer_known_v1 1000) (printer_v2 2000)) = []
   \<and> new_events (printer_known 1000)
      (onresponse_match spec_env (printer_known 1000) (printer_v2 2000))
     = [TxtUpdate (printer_v2 2000) (printer 2000)]
   \<and> services (onresponse_match spec_env (printer_known 1000) (printer_v2 2000))
     = [printer_v2 2000]"
proof -
  have u: "uniq_fqdn spec_env (services (printer_known_v1 1000))"
    "uniq_fqdn spec_env (services (printer_known 1000))"
    by code_simp+
  have k: "find (\<lambda>s. dnsEqualU spec_env (fqdn s) (fqdn (printer_v2 2000)))
        (services (printer_known_v1 1000)) = Some (printer 1000)"
    "find (\<lambda>s. dnsEqualU spec_env (fqdn s) (fqdn (printer_v2 2000)))
        (services (printer_known 1000)) = Some (printer 1000)"
    by code_simp+
  have c: "txt_changed spec_env (printer 1000) (printer_v2 2000)"
    by code_simp
  have e: "\<not> srv_changed (printer 1000) (printer_v2 2000)"
    "(printer 1000)\<lparr>lastSeen := lastSeen (printer_v2 2000)\<rparr> = printer 2000"
    "\<not> filterService spec_env (printer_v2 2000) (txtQuery (printer_known_v1 1000))"
    "filterService spec_env (printer_v2 2000) (txtQuery (printer_known 1000))"
    "filter (\<lambda>s. \<not> dnsEqualU spec_env (fqdn s) (fqdn (printer_v2 2000)))
        (services (printer_known_v1 1000)) = []"
    "map (\<lambda>s. if dnsEqualU spec_env (fqdn s) (fqdn (printer_v2 2000)) then printer_v2 2000 else s)
        (services (printer_known 1000)) = [printer_v2 2000]"
    by code_simp+
  from failing_txt_update_goes_down[OF spec_dnsEqual_equivp u(1) k(1) c]
    failing_txt_update_goes_down[OF spec_dnsEqual_equivp u(2) k(2) c] e
  show ?thesis by simp
qed


subsection \<open>Claim C9: a re-announcement without TXT record\<close>

text \<open>
  C9. A browser without a TXT query knows a service with a TXT mapping. A packet
  without any live TXT record re-announces the service: a candidate of the packet has
  the name of the known service. The candidate has neither \<open>txt\<close> nor \<open>rawTxt\<close>, the
  browser emits \<open>txt-update\<close> with it (after an \<open>srv-update\<close>, if the SRV keys changed
  too) and stores the candidate in the place of the service, whose TXT content is lost.
  Of the imported functions this needs that \<open>equalTxt\<close> does not take an absent mapping
  for equal to the stored one, which the claim has non-empty, and that \<open>filterService\<close>
  admits the candidate when there is no query.
\<close>

theorem reannouncement_without_txt_erases_txt:
  assumes cand: "c \<in> set (buildServicesFor E dt n pkt ref t)"
    and notxt: "\<forall>r \<in> set (live_records pkt). rtype r \<noteq> ''TXT''"
    and known: "find (\<lambda>s. dnsEqualU E (fqdn s) (fqdn c)) (services b) = Some found"
    and stored: "txt found = Some tx" and nonempty: "tx \<noteq> []"
    and nofilter: "txtQuery b = None"
    and differs: "\<not> equalTxt E None tx"
    and admits: "filterService E c None"
  shows "txt c = None \<and> rawTxt c = None
       \<and> new_events b (onresponse_match E b c) =
          (if srv_changed found c then [SrvUpdate c (found\<lparr>lastSeen := lastSeen c\<rparr>)] else [])
          @ [TxtUpdate c (found\<lparr>lastSeen := lastSeen c\<rparr>)]
       \<and> services (onresponse_match E b c) =
          map (\<lambda>s. if dnsEqualU E (fqdn s) (fqdn c) then c else s) (services b)"
proof -
  from buildServicesFor_no_txt[OF cand notxt] have t: "txt c = None" "rawTxt c = None"
    by simp_all
  with stored differs have ch: "txt_changed E found c"
    by (simp add: txt_changed_def)
  from admits nofilter have "filterService E c (txtQuery b)" by simp
  from match_known_admitted[OF known this] ch t show ?thesis by simp
qed

theorem reannouncement_without_txt_erases_txt_witness:
  "buildServicesFor spec_env None ''_http._tcp.local'' bare_packet rinfo0 2000 = [printer_bare 2000]
   \<and> txt (printer_bare 2000) = None \<and> rawTxt (printer_bare 2000) = None
   \<and> new_events (printer_known 1000)
        (onresponse_match spec_env (printer_known 1000) (printer_bare 2000))
      = [TxtUpdate (printer_bare 2000) (printer 2000)]
   \<and> services (onresponse_match spec_env (printer_known 1000) (printer_bare 2000))
      = [printer_bare 2000]
   \<and> run spec_env (printer_known 1000) [Response bare_packet rinfo0 2000]
      = onresponse_match spec_env (printer_known 1000) (printer_bare 2000)"
proof -
  have b: "buildServicesFor spec_env None ''_http._tcp.local'' bare_packet rinfo0 2000
      = [printer_bare 2000]"
    by code_simp
  then have cand: "printer_bare 2000
      \<in> set (buildServicesFor spec_env None ''_http._tcp.local'' bare_packet rinfo0 2000)"
    by simp
  have notxt: "\<forall>r \<in> set (live_records bare_packet). rtype r \<noteq> ''TXT''"
    by code_simp
  have known: "find (\<lambda>s. dnsEqualU spec_env (fqdn s) (fqdn (printer_bare 2000)))
      (services (printer_known 1000)) = Some (printer 1000)"
    by code_simp
  have stored: "txt (printer 1000) = Some [(''v'', ''1'')]" and nonempty: "[(''v'', ''1'')] \<noteq> []"
    by (simp_all add: printer_def)
  have nofilter: "txtQuery (printer_known 1000) = None"
    by (simp add: printer_known_def)
  have differs: "\<not> equalTxt spec_env None [(''v'', ''1'')]"
    by (simp add: spec_env_def spec_equalTxt_def)
  have admits: "filterService spec_env (printer_bare 2000) None"
    by (simp add: spec_env_def spec_filterService_def)
  have e: "\<not> srv_changed (printer 1000) (printer_bare 2000)"
    "(printer 1000)\<lparr>lastSeen := lastSeen (printer_bare 2000)\<rparr> = printer 2000"
    "map (\<lambda>s. if dnsEqualU spec_env (fqdn s) (fqdn (printer_bare 2000)) then printer_bare 2000 else s)
        (services (printer_known 1000)) = [printer_bare 2000]"
    by code_simp+
  have r: "run spec_env (printer_known 1000) [Response bare_packet rinfo0 2000]
      = onresponse_match spec_env (printer_known 1000) (printer_bare 2000)"
    by code_simp
  from reannouncement_without_txt_erases_txt[OF cand notxt known stored nonempty nofilter
      differs admits] e b r
  show ?thesis by simp
qed

subsection \<open>Events are only added\<close>

lemma extends_refl: "extends b b"
  by (simp add: extends_def new_events_def)

lemma extendsI: "events b' = events b @ es \<Longrightarrow> extends b b'"
  by (simp add: extends_def new_events_def)

lemma extends_trans: "extends a b \<Longrightarrow> extends b c \<Longrightarrow> extends a c"
  unfolding extends_def new_events_def
  by (metis append.assoc append_eq_conv_conj)

lemma new_events_trans:
  "extends a b \<Longrightarrow> extends b c \<Longrightarrow> new_events a c = new_events a b @ new_events b c"
  unfolding extends_def new_events_def
  by (metis append.assoc append_eq_conv_conj)

lemma extends_foldl:
  assumes "\<And>b x. extends b (f b x)"
  shows "extends b (foldl f b xs)"
proof (induction xs arbitrary: b)
  case Nil
  show ?case by (simp add: extends_refl)
next
  case (Cons x xs)
  from assms[of b x] Cons[of "f b x"] show ?case
    by (auto intro: extends_trans)
qed

lemma extends_removeService: "extends b (removeService E b fq)"
  by (auto simp: removeService_find emit_def intro!: extendsI split: option.splits)

lemma extends_addService: "extends b (addService E b c)"
  by (auto simp: addService_def emit_def intro!: extendsI)

lemma extends_onresponse_match: "extends b (onresponse_match E b c)"
proof (cases "find (\<lambda>s. dnsEqualU E (fqdn s) (fqdn c)) (services b)")
  case None
  then show ?thesis by (simp add: onresponse_match_def extends_addService)
next
  case (Some found)
  let ?b1 = "b\<lparr>services := touch_first (\<lambda>s. dnsEqualU E (fqdn s) (fqdn c)) (lastSeen c) (services b)\<rparr>"
  let ?ex = "found\<lparr>lastSeen := lastSeen c\<rparr>"
  have 1: "extends b ?b1" by (rule extendsI[of _ _ "[]"]) simp
  have 2: "extends ?b1 (updateServiceSrv E ?b1 ?ex c)"
    by (auto simp: updateServiceSrv_def emit_def replaceService_def intro!: extendsI)
  have 3: "extends b' (updateServiceTxt E b' ?ex c)" for b'
    using extends_removeService[of b' E "fqdn c"]
    by (auto simp: updateServiceTxt_def emit_def replaceService_def extends_refl intro!: extendsI)
  from extends_trans[OF extends_trans[OF 1 2] 3] show ?thesis
    by (simp add: onresponse_match_known[OF Some])
qed

lemma extends_unregister_goodbyes: "extends b (unregister_goodbyes E b n pkt)"
  unfolding unregister_goodbyes_def
  by (rule extends_foldl) (rule extends_removeService)

lemma extends_matches: "extends b (foldl (onresponse_match E) b cs)"
  by (rule extends_foldl) (rule extends_onresponse_match)

subsection \<open>Goodbyes\<close>

lemma set_map_filter_Some:
  "set (List.map_filter f xs) = {y. \<exists>x \<in> set xs. f x = Some y}"
  by (induction xs) (auto split: option.splits)

lemma goodbyes_iff:
  "g \<in> set (goodbyes E n pkt) \<longleftrightarrow>
     (\<exists>r \<in> set (answers pkt @ additionals pkt).
        rdata r = PTR g \<and> rttl r = 0 \<and> dnsEqual E (rname r) n)"
proof -
  have p: "ptr_data r = Some g \<longleftrightarrow> rdata r = PTR g" for r
    by (cases "rdata r") (simp_all add: ptr_data_def)
  have t: "rdata r = PTR g \<Longrightarrow> rtype r = ''PTR''" for r
    by (simp add: rtype_def)
  show ?thesis
    unfolding goodbyes_def set_map_filter_Some using p t by fastforce
qed

lemma uniq_find_filter:
  assumes eq: "equivp (dnsEqual E)"
  shows "uniq_fqdn E ss \<Longrightarrow> find (\<lambda>s. dnsEqualU E (fqdn s) f) ss = Some x \<Longrightarrow>
     filter (\<lambda>s. dnsEqualU E (fqdn s) f) ss = [x]"
proof (induction ss)
  case Nil
  then show ?case by simp
next
  case (Cons s ss)
  from Cons.prems(1) have u: "uniq_fqdn E ss" by (simp add: uniq_fqdn_def)
  show ?case
  proof (cases "dnsEqualU E (fqdn s) f")
    case True
    from uniq_no_second[OF eq Cons.prems(1) True]
    have "filter (\<lambda>s. dnsEqualU E (fqdn s) f) ss = []"
      by (simp add: filter_empty_conv)
    with True Cons.prems(2) show ?thesis by simp
  next
    case False
    with Cons.IH[OF u] Cons.prems(2) show ?thesis by simp
  qed
qed

lemma removeService_uniq:
  assumes eq: "equivp (dnsEqual E)" and u: "uniq_fqdn E (services b)"
  shows "services (removeService E b f) = filter (\<lambda>s. \<not> dnsEqualU E (fqdn s) f) (services b)"
    and "new_events b (removeService E b f) = map Down (filter (\<lambda>s. dnsEqualU E (fqdn s) f) (services b))"
proof -
  show "services (removeService E b f) = filter (\<lambda>s. \<not> dnsEqualU E (fqdn s) f) (services b)"
  proof (cases "find (\<lambda>s. dnsEqualU E (fqdn s) f) (services b)")
    case None
    then have "\<forall>s \<in> set (services b). \<not> dnsEqualU E (fqdn s) f"
      by (simp add: find_None_iff_all)
    then have "filter (\<lambda>s. \<not> dnsEqualU E (fqdn s) f) (services b) = services b"
      by (simp add: filter_id_conv)
    with None show ?thesis by (simp add: removeService_find)
  next
    case (Some x)
    with uniq_remove_first_filter[OF eq u, of f] show ?thesis
      by (simp add: removeService_find emit_def)
  qed
  show "new_events b (removeService E b f) = map Down (filter (\<lambda>s. dnsEqualU E (fqdn s) f) (services b))"
  proof (cases "find (\<lambda>s. dnsEqualU E (fqdn s) f) (services b)")
    case None
    then have "\<forall>s \<in> set (services b). \<not> dnsEqualU E (fqdn s) f"
      by (simp add: find_None_iff_all)
    then have "filter (\<lambda>s. dnsEqualU E (fqdn s) f) (services b) = []"
      by (simp add: filter_empty_conv)
    with None show ?thesis by (simp add: removeService_find new_events_def)
  next
    case (Some x)
    with uniq_find_filter[OF eq u Some] show ?thesis
      by (simp add: removeService_find emit_def new_events_def)
  qed
qed

text \<open>The services a list of goodbyes names.\<close>

lemma goodbyes_fold:
  assumes eq: "equivp (dnsEqual E)"
  shows "uniq_fqdn E (services b) \<Longrightarrow>
     services (foldl (removeService E) b (map Some gs))
       = filter (\<lambda>s. \<forall>g \<in> set gs. \<not> dnsEqualU E (fqdn s) (Some g)) (services b)
     \<and> (\<exists>ds. new_events b (foldl (removeService E) b (map Some gs)) = map Down ds
           \<and> distinct ds
           \<and> set ds = {s \<in> set (services b). \<exists>g \<in> set gs. dnsEqualU E (fqdn s) (Some g)})"
proof (induction gs arbitrary: b)
  case Nil
  show ?case by (simp add: new_events_def)
next
  case (Cons g gs)
  let ?b1 = "removeService E b (Some g)"
  let ?b2 = "foldl (removeService E) ?b1 (map Some gs)"
  note r = removeService_uniq[OF eq Cons.prems, of "Some g"]
  have u1: "uniq_fqdn E (services ?b1)" by (rule uniq_removeService[OF Cons.prems])
  from Cons.IH[OF u1] obtain ds where
    s2: "services ?b2 = filter (\<lambda>s. \<forall>g \<in> set gs. \<not> dnsEqualU E (fqdn s) (Some g)) (services ?b1)"
    and e2: "new_events ?b1 ?b2 = map Down ds" and d: "distinct ds"
    and sd: "set ds = {s \<in> set (services ?b1). \<exists>g \<in> set gs. dnsEqualU E (fqdn s) (Some g)}"
    by blast
  have ex: "extends b ?b1" "extends ?b1 ?b2"
    by (rule extends_removeService, rule extends_foldl, rule extends_removeService)
  let ?hit = "filter (\<lambda>s. dnsEqualU E (fqdn s) (Some g)) (services b)"
  have hit: "?hit = [] \<or> (\<exists>x. ?hit = [x])"
  proof (cases "find (\<lambda>s. dnsEqualU E (fqdn s) (Some g)) (services b)")
    case None
    then have "\<forall>s \<in> set (services b). \<not> dnsEqualU E (fqdn s) (Some g)"
      by (simp add: find_None_iff_all)
    then show ?thesis by (simp add: filter_empty_conv)
  next
    case (Some x)
    from uniq_find_filter[OF eq Cons.prems Some] show ?thesis by simp
  qed
  have ne: "new_events b ?b2 = map Down (?hit @ ds)"
    using new_events_trans[OF ex] r(2) e2 by simp
  have s1: "set (services ?b1) = {s \<in> set (services b). \<not> dnsEqualU E (fqdn s) (Some g)}"
    unfolding r(1) by auto
  have dh: "distinct ?hit"
    using hit by auto
  have "set ?hit \<inter> set ds = {}"
    unfolding sd s1 by auto
  with dh d have dd: "distinct (?hit @ ds)"
    by simp
  have "set (?hit @ ds) = {s \<in> set (services b). dnsEqualU E (fqdn s) (Some g)}
      \<union> {s \<in> set (services b). \<not> dnsEqualU E (fqdn s) (Some g)
            \<and> (\<exists>g \<in> set gs. dnsEqualU E (fqdn s) (Some g))}"
    unfolding set_append sd s1 by auto
  also have "\<dots> = {s \<in> set (services b). \<exists>g' \<in> set (g # gs). dnsEqualU E (fqdn s) (Some g')}"
    by auto
  finally have ss: "set (?hit @ ds)
      = {s \<in> set (services b). \<exists>g' \<in> set (g # gs). dnsEqualU E (fqdn s) (Some g')}" .
  have "services ?b2 = filter (\<lambda>s. \<forall>g \<in> set gs. \<not> dnsEqualU E (fqdn s) (Some g))
      (filter (\<lambda>s. \<not> dnsEqualU E (fqdn s) (Some g)) (services b))"
    unfolding s2 r(1) ..
  also have "\<dots> = filter (\<lambda>s. \<forall>g' \<in> set (g # gs). \<not> dnsEqualU E (fqdn s) (Some g')) (services b)"
    unfolding filter_filter by (rule filter_cong) auto
  finally have sv: "services ?b2
      = filter (\<lambda>s. \<forall>g' \<in> set (g # gs). \<not> dnsEqualU E (fqdn s) (Some g')) (services b)" .
  have f: "foldl (removeService E) b (map Some (g # gs)) = ?b2" by simp
  show ?case
    unfolding f
  proof (intro conjI exI[of _ "?hit @ ds"])
    show "services ?b2
      = filter (\<lambda>s. \<forall>g' \<in> set (g # gs). \<not> dnsEqualU E (fqdn s) (Some g')) (services b)"
      by (rule sv)
    show "new_events b ?b2 = map Down (?hit @ ds)" by (rule ne)
    show "distinct (?hit @ ds)" by (rule dd)
    show "set (?hit @ ds)
      = {s \<in> set (services b). \<exists>g' \<in> set (g # gs). dnsEqualU E (fqdn s) (Some g')}"
      by (rule ss)
  qed
qed

lemma count_list_distinct: "distinct xs \<Longrightarrow> x \<in> set xs \<Longrightarrow> count_list xs x = 1"
  by (induction xs) (auto simp: count_list_0_iff)

lemma count_list_Down: "count_list (map Down ds) (Down s) = count_list ds s"
  by (induction ds) auto

lemma goodbyes_noop:
  "\<forall>x \<in> set (services b). \<forall>g \<in> set gs. \<not> dnsEqualU E (fqdn x) (Some g) \<Longrightarrow>
     foldl (removeService E) b (map Some gs) = b"
proof (induction gs)
  case Nil
  show ?case by simp
next
  case (Cons g gs)
  from Cons.prems have "find (\<lambda>s. dnsEqualU E (fqdn s) (Some g)) (services b) = None"
    by (simp add: find_None_iff_all)
  then have "removeService E b (Some g) = b" by (simp add: removeService_find)
  with Cons show ?case by simp
qed

lemma distinct_singleton: "distinct ys \<Longrightarrow> set ys = {s} \<Longrightarrow> ys = [s]"
  by (cases ys) (auto simp: subset_singleton_iff)

lemma uniq_only_one:
  assumes eq: "equivp (dnsEqual E)" and u: "uniq_fqdn E ss"
    and s: "s \<in> set ss" "dnsEqualU E (fqdn s) f"
  shows "{x \<in> set ss. dnsEqualU E (fqdn x) f} = {s}"
proof -
  from s have "find (\<lambda>s. dnsEqualU E (fqdn s) f) ss \<noteq> None"
    by (auto simp: find_None_iff_all)
  then obtain x0 where "find (\<lambda>s. dnsEqualU E (fqdn s) f) ss = Some x0" by auto
  from uniq_find_filter[OF eq u this] have "set (filter (\<lambda>s. dnsEqualU E (fqdn s) f) ss) = {x0}"
    by simp
  then have *: "{x \<in> set ss. dnsEqualU E (fqdn x) f} = {x0}" by auto
  with s have "s = x0" by blast
  with * show ?thesis by simp
qed

text \<open>What the goodbyes of a packet do for a tracked name.\<close>

lemma unregister_goodbyes_known:
  assumes eq: "equivp (dnsEqual E)" and uniq: "uniq_fqdn E (services b)"
    and g: "g \<in> set (goodbyes E n pkt)"
    and known: "s \<in> set (services b)" "dnsEqualU E (fqdn s) (Some g)"
  shows "\<forall>x \<in> set (services (unregister_goodbyes E b n pkt)). \<not> dnsEqualU E (fqdn x) (Some g)"
    and "s \<notin> set (services (unregister_goodbyes E b n pkt))"
    and "count_list (new_events b (unregister_goodbyes E b n pkt)) (Down s) = 1"
    and "filter (about E (Some g)) (new_events b (unregister_goodbyes E b n pkt)) = [Down s]"
    and "unregister_goodbyes E (unregister_goodbyes E b n pkt) n pkt = unregister_goodbyes E b n pkt"
proof -
  let ?gs = "goodbyes E n pkt"
  let ?b1 = "unregister_goodbyes E b n pkt"
  from goodbyes_fold[OF eq uniq, of ?gs] obtain ds where
    sv: "services ?b1 = filter (\<lambda>s. \<forall>g \<in> set ?gs. \<not> dnsEqualU E (fqdn s) (Some g)) (services b)"
    and ev: "new_events b ?b1 = map Down ds" and d: "distinct ds"
    and sd: "set ds = {s \<in> set (services b). \<exists>g \<in> set ?gs. dnsEqualU E (fqdn s) (Some g)}"
    unfolding unregister_goodbyes_def by blast
  from sv g show 1: "\<forall>x \<in> set (services ?b1). \<not> dnsEqualU E (fqdn x) (Some g)"
    by auto
  with known(2) show "s \<notin> set (services ?b1)" by blast
  from sd g known have m: "s \<in> set ds" by blast
  with d show "count_list (new_events b ?b1) (Down s) = 1"
    by (simp add: ev count_list_Down count_list_distinct)
  have "{x \<in> set ds. dnsEqualU E (fqdn x) (Some g)} = {s}"
    using uniq_only_one[OF eq uniq known] sd m by blast
  then have "set (filter (\<lambda>x. dnsEqualU E (fqdn x) (Some g)) ds) = {s}" by simp
  with d have "filter (\<lambda>x. dnsEqualU E (fqdn x) (Some g)) ds = [s]"
    by (intro distinct_singleton) simp_all
  moreover have "filter (about E (Some g)) (map Down ds)
      = map Down (filter (\<lambda>x. dnsEqualU E (fqdn x) (Some g)) ds)"
    by (induction ds) (simp_all add: about_def)
  ultimately show "filter (about E (Some g)) (new_events b ?b1) = [Down s]"
    by (simp add: ev)
  from sv have "\<forall>x \<in> set (services ?b1). \<forall>g \<in> set ?gs. \<not> dnsEqualU E (fqdn x) (Some g)"
    by auto
  from goodbyes_noop[OF this] show "unregister_goodbyes E ?b1 n pkt = ?b1"
    by (simp add: unregister_goodbyes_def)
qed

subsection \<open>Candidates of other names\<close>

lemma fqdns_removeService:
  "fqdn ` set (services (removeService E b f)) \<subseteq> fqdn ` set (services b)"
proof (cases "find (\<lambda>s. dnsEqualU E (fqdn s) f) (services b)")
  case None
  then show ?thesis by (simp add: removeService_find)
next
  case (Some x)
  then have "services (removeService E b f) = remove_first (\<lambda>s. dnsEqualU E (fqdn s) f) (services b)"
    by (simp add: removeService_find emit_def)
  with set_remove_first[of "\<lambda>s. dnsEqualU E (fqdn s) f" "services b"] show ?thesis
    by (simp add: image_mono)
qed

lemma fqdns_replaceService:
  "fqdn ` set (services (replaceService E b c)) \<subseteq> insert (fqdn c) (fqdn ` set (services b))"
  unfolding replaceService_def by auto

lemma fqdns_updateServiceSrv:
  "fqdn ` set (services (updateServiceSrv E b ex c)) \<subseteq> insert (fqdn c) (fqdn ` set (services b))"
proof (cases "srv_changed ex c")
  case True
  then have "services (updateServiceSrv E b ex c) = services (replaceService E b c)"
    by (simp add: updateServiceSrv_eq services_emit)
  with fqdns_replaceService[of E b c] show ?thesis by simp
next
  case False
  then have "updateServiceSrv E b ex c = b" by (simp add: updateServiceSrv_eq)
  then show ?thesis by (simp add: subset_insertI)
qed

lemma fqdns_updateServiceTxt:
  "fqdn ` set (services (updateServiceTxt E b ex c)) \<subseteq> insert (fqdn c) (fqdn ` set (services b))"
proof (cases "txt_changed E ex c")
  case False
  then have "updateServiceTxt E b ex c = b" by (simp add: updateServiceTxt_eq)
  then show ?thesis by (simp add: subset_insertI)
next
  case True
  show ?thesis
  proof (cases "filterService E c (txtQuery b)")
    case False
    with True have "updateServiceTxt E b ex c = removeService E b (fqdn c)"
      by (simp add: updateServiceTxt_eq)
    with fqdns_removeService[of E b "fqdn c"] show ?thesis
      by (simp add: subset_insertI2)
  next
    case f: True
    with True have "services (updateServiceTxt E b ex c) = services (replaceService E b c)"
      by (simp add: updateServiceTxt_eq services_emit)
    with fqdns_replaceService[of E b c] show ?thesis by simp
  qed
qed

lemma fqdns_onresponse_match:
  "fqdn ` set (services (onresponse_match E b c)) \<subseteq> insert (fqdn c) (fqdn ` set (services b))"
proof (cases "find (\<lambda>s. dnsEqualU E (fqdn s) (fqdn c)) (services b)")
  case None
  then have "services (onresponse_match E b c) = services (addService E b c)"
    by (simp add: onresponse_match_def)
  then show ?thesis by (auto simp: addService_def emit_def)
next
  case (Some found)
  let ?b1 = "b\<lparr>services := touch_first (\<lambda>s. dnsEqualU E (fqdn s) (fqdn c)) (lastSeen c) (services b)\<rparr>"
  let ?ex = "found\<lparr>lastSeen := lastSeen c\<rparr>"
  let ?b2 = "updateServiceSrv E ?b1 ?ex c"
  have "set (map fqdn (services ?b1)) = set (map fqdn (services b))"
    by (simp add: fqdn_touch_first)
  then have 1: "fqdn ` set (services ?b1) = fqdn ` set (services b)"
    by (simp only: set_map)
  have 2: "fqdn ` set (services ?b2) \<subseteq> insert (fqdn c) (fqdn ` set (services ?b1))"
    by (rule fqdns_updateServiceSrv)
  have 3: "fqdn ` set (services (updateServiceTxt E ?b2 ?ex c))
      \<subseteq> insert (fqdn c) (fqdn ` set (services ?b2))"
    by (rule fqdns_updateServiceTxt)
  from 2 3 have "fqdn ` set (services (updateServiceTxt E ?b2 ?ex c))
      \<subseteq> insert (fqdn c) (fqdn ` set (services ?b1))"
    by blast
  then show ?thesis
    unfolding onresponse_match_known[OF Some] 1 .
qed

lemma other_candidate_keeps_absent:
  assumes "\<not> dnsEqualU E (fqdn c) f"
    and "\<forall>x \<in> set (services b). \<not> dnsEqualU E (fqdn x) f"
  shows "\<forall>x \<in> set (services (onresponse_match E b c)). \<not> dnsEqualU E (fqdn x) f"
proof
  fix x assume "x \<in> set (services (onresponse_match E b c))"
  then have "fqdn x \<in> fqdn ` set (services (onresponse_match E b c))" by (rule imageI)
  with fqdns_onresponse_match[of E b c]
  have "fqdn x \<in> insert (fqdn c) (fqdn ` set (services b))" by blast
  then consider "fqdn x = fqdn c" | y where "y \<in> set (services b)" "fqdn x = fqdn y"
    by auto
  then show "\<not> dnsEqualU E (fqdn x) f"
  proof cases
    case 1
    with assms(1) show ?thesis by simp
  next
    case 2
    with assms(2) show ?thesis by simp
  qed
qed

lemma other_candidates_keep_absent:
  "\<forall>c \<in> set cs. \<not> dnsEqualU E (fqdn c) f \<Longrightarrow>
   \<forall>x \<in> set (services b). \<not> dnsEqualU E (fqdn x) f \<Longrightarrow>
   \<forall>x \<in> set (services (foldl (onresponse_match E) b cs)). \<not> dnsEqualU E (fqdn x) f"
proof (induction cs arbitrary: b)
  case Nil
  then show ?case by simp
next
  case (Cons c cs)
  from Cons.prems have "\<not> dnsEqualU E (fqdn c) f" by simp
  from other_candidate_keeps_absent[OF this Cons.prems(2)] Cons.IH[of "onresponse_match E b c"] Cons.prems(1)
  show ?case by simp
qed

lemma other_candidate_silent:
  assumes eq: "equivp (dnsEqual E)" and other: "\<not> dnsEqualU E (fqdn c) f"
  shows "filter (about E f) (new_events b (onresponse_match E b c)) = []"
proof (cases "find (\<lambda>s. dnsEqualU E (fqdn s) (fqdn c)) (services b)")
  case None
  with other show ?thesis
    by (simp add: onresponse_match_def addService_def emit_def new_events_def about_def)
next
  case (Some found)
  from find_Some_self[OF Some] have fc: "dnsEqualU E (fqdn found) (fqdn c)" .
  then have self: "dnsEqualU E (fqdn c) (fqdn c)"
    using dnsEqualU_sym[OF eq] dnsEqualU_trans[OF eq] by blast
  have nf: "\<not> dnsEqualU E (fqdn found) f"
    using fc other dnsEqualU_sym[OF eq] dnsEqualU_trans[OF eq] by blast
  show ?thesis
    unfolding events_grow_match_known[OF Some self]
    using other nf by (simp add: about_def)
qed

lemma other_candidates_silent:
  assumes eq: "equivp (dnsEqual E)"
  shows "\<forall>c \<in> set cs. \<not> dnsEqualU E (fqdn c) f \<Longrightarrow>
     filter (about E f) (new_events b (foldl (onresponse_match E) b cs)) = []"
proof (induction cs arbitrary: b)
  case Nil
  show ?case by (simp add: new_events_def)
next
  case (Cons c cs)
  let ?b1 = "onresponse_match E b c"
  from Cons.prems have o: "\<not> dnsEqualU E (fqdn c) f" by simp
  have "new_events b (foldl (onresponse_match E) ?b1 cs)
      = new_events b ?b1 @ new_events ?b1 (foldl (onresponse_match E) ?b1 cs)"
    by (rule new_events_trans[OF extends_onresponse_match extends_matches])
  with other_candidate_silent[OF eq o, of b] Cons.IH[of ?b1] Cons.prems
  show ?case by simp
qed



lemma onresponse_name_order:
  "onresponse_name E pkt ref t b n =
     foldl (onresponse_match E) (unregister_goodbyes E b n pkt)
       (buildServicesFor E (dnstxt b) n pkt ref t)"
proof -
  have "dnstxt (unregister_goodbyes E b n pkt) = dnstxt b"
    using same_config_unregister_goodbyes[of b E n pkt] by (simp add: same_config_def)
  then show ?thesis by (simp add: onresponse_name_def Let_def)
qed

text \<open>A browser that searches one name runs the callback over the tracked names once.\<close>

lemma onresponse_handler_direct:
  "\<not> wildcard b \<Longrightarrow> nameMap b = [n] \<Longrightarrow>
     onresponse_handler E b pkt ref t = onresponse_name E pkt ref t b n"
  by (simp add: onresponse_handler_def Object_keys_def)

subsection \<open>Claim C2: goodbyes\<close>

text \<open>
  C2. A packet holds a PTR record with ttl 0 whose name is DNS-equal to a tracked
  name and whose data is DNS-equal to the fully-qualified name of a known service.
  The goodbyes of the packet for that tracked name remove the service, and every
  service of that name, from the known services, and emit \<open>down\<close> for the service
  exactly once. Running the same goodbyes again changes nothing. If the packet has no
  candidate of that name for the tracked name, this is what the whole processing of the
  tracked name does: afterwards no service of that name is known, and the one \<open>down\<close>
  is the only event about the name. In a search for one name the processing of the
  tracked name is all the handler does with a packet.
\<close>

theorem goodbye_removes_and_reports_once:
  assumes eq: "equivp (dnsEqual E)" and uniq: "uniq_fqdn E (services b)"
    and rec: "r \<in> set (answers pkt @ additionals pkt)" "rdata r = PTR g" "rttl r = 0"
      "dnsEqual E (rname r) n"
    and known: "s \<in> set (services b)" "dnsEqualU E (fqdn s) (Some g)"
  shows "s \<notin> set (services (unregister_goodbyes E b n pkt))
       \<and> (\<forall>x \<in> set (services (unregister_goodbyes E b n pkt)). \<not> dnsEqualU E (fqdn x) (Some g))
       \<and> count_list (new_events b (unregister_goodbyes E b n pkt)) (Down s) = 1
       \<and> unregister_goodbyes E (unregister_goodbyes E b n pkt) n pkt
           = unregister_goodbyes E b n pkt
       \<and> ((\<forall>c \<in> set (buildServicesFor E (dnstxt b) n pkt ref t). \<not> dnsEqualU E (fqdn c) (Some g))
            \<longrightarrow> (\<forall>x \<in> set (services (onresponse_name E pkt ref t b n)).
                    \<not> dnsEqualU E (fqdn x) (Some g))
               \<and> filter (about E (Some g)) (new_events b (onresponse_name E pkt ref t b n))
                  = [Down s])
       \<and> (\<not> wildcard b \<and> nameMap b = [n] \<longrightarrow>
            onresponse_handler E b pkt ref t = onresponse_name E pkt ref t b n)"
proof -
  from rec have g: "g \<in> set (goodbyes E n pkt)"
    unfolding goodbyes_iff by blast
  note k = unregister_goodbyes_known[OF eq uniq g known]
  note d = onresponse_handler_direct[of b n E pkt ref t]
  let ?b1 = "unregister_goodbyes E b n pkt"
  let ?cs = "buildServicesFor E (dnstxt b) n pkt ref t"
  have "(\<forall>x \<in> set (services (onresponse_name E pkt ref t b n)).
                    \<not> dnsEqualU E (fqdn x) (Some g))
               \<and> filter (about E (Some g)) (new_events b (onresponse_name E pkt ref t b n))
                  = [Down s]"
    if other: "\<forall>c \<in> set ?cs. \<not> dnsEqualU E (fqdn c) (Some g)"
  proof -
    have "new_events b (foldl (onresponse_match E) ?b1 ?cs)
        = new_events b ?b1 @ new_events ?b1 (foldl (onresponse_match E) ?b1 ?cs)"
      by (rule new_events_trans[OF extends_unregister_goodbyes extends_matches])
    with k(4) other_candidates_silent[OF eq other, of ?b1]
      other_candidates_keep_absent[OF other k(1)]
    show ?thesis by (simp add: onresponse_name_order)
  qed
  with k(1,2,3,5) d show ?thesis by blast
qed

theorem goodbye_removes_and_reports_once_witness:
  "services (unregister_goodbyes spec_env (printer_known 1000) ''_http._tcp.local'' goodbye_packet) = []
   \<and> new_events (printer_known 1000)
        (unregister_goodbyes spec_env (printer_known 1000) ''_http._tcp.local'' goodbye_packet)
      = [Down (printer 1000)]
   \<and> count_list (new_events (printer_known 1000)
        (unregister_goodbyes spec_env (printer_known 1000) ''_http._tcp.local'' goodbye_packet))
        (Down (printer 1000)) = 1
   \<and> unregister_goodbyes spec_env
        (unregister_goodbyes spec_env (printer_known 1000) ''_http._tcp.local'' goodbye_packet)
        ''_http._tcp.local'' goodbye_packet
      = unregister_goodbyes spec_env (printer_known 1000) ''_http._tcp.local'' goodbye_packet
   \<and> run spec_env (printer_known 1000) [Response goodbye_packet rinfo0 2000]
      = unregister_goodbyes spec_env (printer_known 1000) ''_http._tcp.local'' goodbye_packet"
proof -
  have u: "uniq_fqdn spec_env (services (printer_known 1000))"
    by code_simp
  have rec: "printer_goodbye \<in> set (answers goodbye_packet @ additionals goodbye_packet)"
    "rdata printer_goodbye = PTR ''myprinter._http._tcp.local''" "rttl printer_goodbye = 0"
    "dnsEqual spec_env (rname printer_goodbye) ''_http._tcp.local''"
    by code_simp+
  have known: "printer 1000 \<in> set (services (printer_known 1000))"
    "dnsEqualU spec_env (fqdn (printer 1000)) (Some ''myprinter._http._tcp.local'')"
    by code_simp+
  have e: "services (unregister_goodbyes spec_env (printer_known 1000) ''_http._tcp.local''
        goodbye_packet) = []"
    "new_events (printer_known 1000)
        (unregister_goodbyes spec_env (printer_known 1000) ''_http._tcp.local'' goodbye_packet)
      = [Down (printer 1000)]"
    "run spec_env (printer_known 1000) [Response goodbye_packet rinfo0 2000]
      = unregister_goodbyes spec_env (printer_known 1000) ''_http._tcp.local'' goodbye_packet"
    by code_simp+
  from goodbye_removes_and_reports_once[OF spec_dnsEqual_equivp u rec known] e
  show ?thesis by blast
qed

subsection \<open>Tracked names that have nothing of a service in the packet\<close>























subsection \<open>Claim C8: goodbyes come before candidates\<close>




end
